theory Spec2Isabelle
  imports Main "HOL-Library.AList" "HOL-Library.Sublist"
begin

section \<open>Strings\<close>

text \<open>
  A JavaScript string is modelled as a \<^typ>\<open>string\<close> whose characters are the code
  units of the source string, restricted to the code units below 256.  The string
  methods used by the sources are written out on lists.
\<close>

definition startsWith :: "string \<Rightarrow> string \<Rightarrow> bool" where
  "startsWith s p = (take (length p) s = p)"

definition endsWith :: "string \<Rightarrow> string \<Rightarrow> bool" where
  "endsWith s p = (length p \<le> length s \<and> drop (length s - length p) s = p)"

text \<open>\<^verbatim>\<open>s.slice(n)\<close> for a non-negative \<open>n\<close> and \<^verbatim>\<open>s.slice(0, -1)\<close>.\<close>

definition slice_from :: "nat \<Rightarrow> string \<Rightarrow> string" where
  "slice_from n s = drop n s"

definition slice_butlast :: "string \<Rightarrow> string" where
  "slice_butlast s = take (length s - 1) s"

section \<open>glob-core.ts: normalising one ignore pattern\<close>

text \<open>The object \<^verbatim>\<open>{ negated, patterns: [pattern, extPattern] }\<close>.\<close>

record rule =
  negated :: bool
  patterns :: "string list"

definition convertGitignoreToPicomatchIgnorePatterns :: "string \<Rightarrow> rule" where
  "convertGitignoreToPicomatchIgnorePatterns pattern0 =
     (let negated = (take 1 pattern0 = ''!'');
          pattern1 = (if negated then slice_from 1 pattern0 else pattern0);
          pattern2 = (if endsWith pattern1 ''/'' then slice_butlast pattern1 else pattern1);
          pattern3 = (if startsWith pattern2 ''*/**/'' then slice_from 5 pattern2 else pattern2);
          pattern4 = (if startsWith pattern3 ''/'' then slice_from 1 pattern3
                      else if \<not> startsWith pattern3 ''**/'' then ''**/'' @ pattern3
                      else pattern3);
          extPattern = (if endsWith pattern4 ''/*'' then pattern4 else pattern4 @ ''/**'')
      in \<lparr> negated = negated, patterns = [pattern4, extPattern] \<rparr>)"

section \<open>glob-core.ts: parsing an ignore file\<close>

text \<open>
  \<^verbatim>\<open>file.split(/\r?\n/)\<close>: a line ends at a line feed, or at a carriage return that
  is directly followed by a line feed.  A carriage return on its own stays in the line.
\<close>

fun split_lines :: "string \<Rightarrow> string list" where
  "split_lines [] = [[]]"
| "split_lines (c # cs) =
     (if c = CHR 0x0A then [] # split_lines cs
      else if c = CHR 0x0D \<and> take 1 cs = [CHR 0x0A] then [] # split_lines (drop 1 cs)
      else (case split_lines cs of
              [] \<Rightarrow> [[c]]
            | l # ls \<Rightarrow> (c # l) # ls))"

text \<open>
  The characters \<^verbatim>\<open>String.prototype.trim\<close> removes (white space and line terminators),
  among the code units below 256: TAB, LF, VT, FF, CR, SP and NBSP.
\<close>

definition white_space :: "char \<Rightarrow> bool" where
  "white_space c = (c \<in> {CHR 0x09, CHR 0x0A, CHR 0x0B, CHR 0x0C, CHR 0x0D, CHR 0x20, CHR 0xA0})"

definition trim :: "string \<Rightarrow> string" where
  "trim s = rev (dropWhile white_space (rev (dropWhile white_space s)))"

text \<open>
  The characters the regular expression atom \<^verbatim>\<open>.\<close> does not match (the flag \<^verbatim>\<open>s\<close> is
  not set), among the code units below 256: LF and CR.
\<close>

definition line_terminator :: "char \<Rightarrow> bool" where
  "line_terminator c = (c = CHR 0x0A \<or> c = CHR 0x0D)"

text \<open>
  \<^verbatim>\<open>pattern.replace(/(?<!\\)#.*/, '')\<close>: the first \<^verbatim>\<open>#\<close> that has no backslash directly
  before it is removed together with every following character up to the next line
  terminator.  The flag says whether the previous character is a backslash.
\<close>

fun strip_comment :: "bool \<Rightarrow> string \<Rightarrow> string" where
  "strip_comment esc [] = []"
| "strip_comment esc (c # cs) =
     (if c = CHR ''#'' \<and> \<not> esc then dropWhile (\<lambda>x. \<not> line_terminator x) cs
      else c # strip_comment (c = CHR 0x5C) cs)"

text \<open>The callback of \<^verbatim>\<open>filter\<close>: \<^verbatim>\<open>line.trim() && !line.startsWith('#')\<close>.\<close>

definition keep_line :: "string \<Rightarrow> bool" where
  "keep_line line = (trim line \<noteq> [] \<and> \<not> startsWith line ''#'')"

text \<open>The callback of the first \<^verbatim>\<open>map\<close>.\<close>

definition strip_line :: "string \<Rightarrow> string" where
  "strip_line pattern = trim (strip_comment False pattern)"

text \<open>
  The callback of \<^verbatim>\<open>flatMap\<close>.  The regular expression object \<^verbatim>\<open>matchFrom\<close> is a
  function: \<open>None\<close> when \<^verbatim>\<open>pattern.match(matchFrom)\<close> fails, and otherwise the value of
  \<^verbatim>\<open>pattern.replace(matchFrom, '$1')\<close>.  The argument is \<open>None\<close> when \<^verbatim>\<open>from\<close> is
  undefined or empty.
\<close>

definition relocate :: "(string \<Rightarrow> string option) option \<Rightarrow> string \<Rightarrow> string list" where
  "relocate matchFrom pattern =
     (case matchFrom of
        None \<Rightarrow> [pattern]
      | Some rx \<Rightarrow>
          (case rx pattern of
             Some replaced \<Rightarrow> [replaced]
           | None \<Rightarrow>
               if startsWith pattern ''/**/'' then [slice_from 1 pattern]
               else if startsWith pattern ''!/**/'' then [''!'' @ slice_from 2 pattern]
               else if startsWith pattern ''/'' \<or> startsWith pattern ''!/'' then []
               else [pattern]))"

definition parse_lines :: "(string \<Rightarrow> string option) option \<Rightarrow> string list \<Rightarrow> rule list" where
  "parse_lines matchFrom ls =
     map convertGitignoreToPicomatchIgnorePatterns
       (concat (map (relocate matchFrom) (map strip_line (filter keep_line ls))))"

text \<open>
  What can be thrown: \<^verbatim>\<open>readFileSync\<close> fails, or the constructor \<^verbatim>\<open>RegExp\<close> rejects
  the source built from \<^verbatim>\<open>from\<close>.
\<close>

datatype error = ReadError | RegExpSyntaxError

text \<open>
  The file system is the parameter \<open>readFileSync\<close> (\<open>None\<close>: the call throws), and the
  regular expression engine is the parameter \<open>regExp\<close>, from the source text of an
  expression to the function described at \<^const>\<open>relocate\<close> (\<open>None\<close>: the constructor
  throws).
\<close>

definition parseGitignoreFile ::
  "(string \<Rightarrow> string option) \<Rightarrow> (string \<Rightarrow> (string \<Rightarrow> string option) option) \<Rightarrow>
   string \<Rightarrow> string option \<Rightarrow> error + rule list" where
  "parseGitignoreFile readFileSync regExp filePath from =
     (case readFileSync filePath of
        None \<Rightarrow> Inl ReadError
      | Some file \<Rightarrow>
          (case (if from \<noteq> None \<and> from \<noteq> Some []
                 then map_option Some (regExp (''^(!?/?)('' @ the from @ '')''))
                 else Some None) of
             None \<Rightarrow> Inl RegExpSyntaxError
           | Some matchFrom \<Rightarrow> Inr (parse_lines matchFrom (split_lines file))))"

section \<open>glob-core.ts: the cache of ignore patterns, globby and getGitIgnoredHandler\<close>

text \<open>
  \<^verbatim>\<open>type Gitignores = { ignores: Set<string>; unignores: string[] }\<close>; the set is the
  list of its elements in insertion order.  \<^verbatim>\<open>cachedIgnores\<close> is a map from a directory
  to such a value; the module reads it with \<^verbatim>\<open>get\<close> and writes it with \<^verbatim>\<open>set\<close> and
  \<^verbatim>\<open>clear\<close> only.
\<close>

record gitignores =
  ignores :: "string list"
  unignores :: "string list"

type_synonym cache = "string \<rightharpoonup> gitignores"

record options =
  gitignore :: bool
  cwd :: string

text \<open>The options handed to the glob engine, and \<^verbatim>\<open>GlobOptions\<close>, which adds \<^verbatim>\<open>dir\<close>.\<close>

record fast_glob_options = options +
  onlyDirectories :: "bool option"
  ignore :: "string list option"
  absolute :: "bool option"
  dot :: "bool option"

record glob_options = fast_glob_options +
  dir :: string

datatype patterns_arg = Single string | Many "string list"

text \<open>What a call does besides returning: debug output, and calls of the glob engine.\<close>

datatype effect =
    Debug_log string
  | Glob_call patterns_arg fast_glob_options
  | Parse_gitignores string

text \<open>
  The loop \<^verbatim>\<open>while (dir !== options.cwd)\<close> of \<^verbatim>\<open>globby\<close>.  It ends only when the
  chain of parent directories of \<^verbatim>\<open>dir\<close> reaches \<^verbatim>\<open>cwd\<close>; \<open>None\<close> is the loop that
  does not end.  \<open>dirname\<close> is the function of that name of \<^verbatim>\<open>path.js\<close>.
\<close>

partial_function (option) ancestor_ignores ::
  "(string \<Rightarrow> string) \<Rightarrow> cache \<Rightarrow> string \<Rightarrow> string \<Rightarrow> string list \<Rightarrow> string list option" where
  "ancestor_ignores dirname cachedIgnores cwd' dir' ignore' =
     (if dir' \<noteq> cwd'
      then ancestor_ignores dirname cachedIgnores cwd' (dirname dir')
             (case cachedIgnores dir' of
                Some i \<Rightarrow> ignore' @ ignores i @ map (\<lambda>e. ''!'' @ e) (unignores i)
              | None \<Rightarrow> ignore')
      else Some ignore')"

text \<open>
  \<open>fg\<close> is \<^verbatim>\<open>fg.glob\<close>, the glob engine, the only access of \<^verbatim>\<open>globby\<close> to the file
  system.  The result is the list of paths together with the effects of the call.
\<close>

definition globby ::
  "(patterns_arg \<Rightarrow> fast_glob_options \<Rightarrow> string list) \<Rightarrow> (string \<Rightarrow> string) \<Rightarrow> cache \<Rightarrow>
   patterns_arg \<Rightarrow> glob_options \<Rightarrow> (string list \<times> effect list) option" where
  "globby fg dirname cachedIgnores patterns' opts =
     (if patterns' = Many [] then Some ([], [])
      else
        let ignore0 = (if gitignore opts then (case ignore opts of Some xs \<Rightarrow> xs | None \<Rightarrow> []) else [])
        in case (if gitignore opts
                 then (case ancestor_ignores dirname cachedIgnores (cwd opts) (dir opts) ignore0 of
                         None \<Rightarrow> None
                       | Some ig \<Rightarrow>
                           Some (case cachedIgnores (cwd opts) of
                                   Some i \<Rightarrow> ig @ ignores i
                                 | None \<Rightarrow> ig))
                 else Some ignore0) of
             None \<Rightarrow> None
           | Some ig \<Rightarrow>
               let fastGlobOptions =
                     \<lparr> gitignore = gitignore opts, cwd = cwd opts,
                       onlyDirectories = onlyDirectories opts, ignore = Some ig,
                       absolute = absolute opts, dot = dot opts \<rparr>
               in Some (fg patterns' fastGlobOptions,
                        [Debug_log ''Glob options'', Glob_call patterns' fastGlobOptions]))"

text \<open>
  The result of \<^verbatim>\<open>findAndParseGitignores\<close>.  That function walks the file system
  (\<^verbatim>\<open>isFile\<close>, \<^verbatim>\<open>readFileSync\<close>, \<^verbatim>\<open>walk\<close>) and is the only reader of ignore files; it
  never reads \<^verbatim>\<open>cachedIgnores\<close> and writes it with \<^verbatim>\<open>cachedIgnores.set(dir, ...)\<close> at the
  end of \<^verbatim>\<open>addFile\<close>.  Here it is the parameter \<open>findAndParseGitignores\<close>: from the
  working directory to its result and the list of its writes to the cache, in order.
\<close>

record parsed_gitignores = gitignores +
  gitignoreFiles :: "string list"

text \<open>
  \<open>picomatch\<close> takes the patterns and the option \<^verbatim>\<open>ignore\<close> and gives the matcher;
  \<open>relative\<close> is the function of that name of \<^verbatim>\<open>path.js\<close>.  The result is the handler, the
  cache after the call and the effects of the call.
\<close>

definition getGitIgnoredHandler ::
  "(string \<Rightarrow> parsed_gitignores \<times> (string \<times> gitignores) list) \<Rightarrow>
   (string list \<Rightarrow> string list \<Rightarrow> string \<Rightarrow> bool) \<Rightarrow> (string \<Rightarrow> string \<Rightarrow> string) \<Rightarrow>
   cache \<Rightarrow> options \<Rightarrow> (string \<Rightarrow> bool) \<times> cache \<times> effect list" where
  "getGitIgnoredHandler findAndParseGitignores picomatch relative cachedIgnores opts =
     (let cleared = Map.empty
      in if \<not> gitignore opts then ((\<lambda>path. False), cleared, [])
         else
           let (parsed, writes) = findAndParseGitignores (cwd opts);
               cachedIgnores' = fold (\<lambda>(d, g) c. c(d \<mapsto> g)) writes cleared;
               matcher = picomatch (ignores parsed) (unignores parsed)
           in ((\<lambda>filePath. matcher (relative (cwd opts) filePath)),
               cachedIgnores', [Parse_gitignores (cwd opts)]))"

text \<open>
  The position of the first \<^verbatim>\<open>#\<close> of a line that has no backslash directly before it:
  the place where, in the words of the specification, an unescaped inline \<^verbatim>\<open>#\<close>
  truncates the line.
\<close>

fun first_unescaped_hash :: "bool \<Rightarrow> string \<Rightarrow> nat option" where
  "first_unescaped_hash esc [] = None"
| "first_unescaped_hash esc (c # cs) =
     (if c = CHR ''#'' \<and> \<not> esc then Some 0
      else map_option Suc (first_unescaped_hash (c = CHR 0x5C) cs))"

text \<open>
  The regular expression \<^verbatim>\<open>^(!?/?)(src/)\<close> that \<^verbatim>\<open>parseGitignoreFile\<close> builds when \<^verbatim>\<open>from\<close> is
  \<^verbatim>\<open>src/\<close>, as the function described at \<^const>\<open>relocate\<close>: a pattern that starts with
  \<^verbatim>\<open>src/\<close>, after an optional \<^verbatim>\<open>!\<close> and an optional \<^verbatim>\<open>/\<close>, matches, and the replacement keeps
  the \<^verbatim>\<open>!\<close> and the \<^verbatim>\<open>/\<close> and drops \<^verbatim>\<open>src/\<close>.
\<close>

definition under_src :: "string \<Rightarrow> string option" where
  "under_src p =
     (if startsWith p ''src/'' then Some (slice_from 4 p)
      else if startsWith p ''/src/'' then Some (''/'' @ slice_from 5 p)
      else if startsWith p ''!src/'' then Some (''!'' @ slice_from 5 p)
      else if startsWith p ''!/src/'' then Some (''!/'' @ slice_from 6 p)
      else None)"

section \<open>dependency-graph.ts: the store\<close>

text \<open>
  The functions of \<^verbatim>\<open>dependency-graph.ts\<close> mutate sets and maps that are shared by
  reference, so the objects live in a store and are named by their addresses.  There
  is one component of the store for each type of object:
  \<^item> \<^verbatim>\<open>Set<string>\<close>: the list of the elements in insertion order;
  \<^item> \<^verbatim>\<open>IdToFileMap = Map<string, Set<string>>\<close>: the list of the entries in insertion
    order, each value the address of a set;
  \<^item> \<^verbatim>\<open>IdToNsToFileMap = Map<string, IdToFileMap>\<close>: each value the address of an
    \<^verbatim>\<open>IdToFileMap\<close>;
  \<^item> \<^verbatim>\<open>Map<string, ImportDetails>\<close> (\<^verbatim>\<open>imports.internal\<close>);
  \<^item> \<^verbatim>\<open>Map<string, Export>\<close> (\<^verbatim>\<open>exports\<close>): no function modelled here reads an
    \<^verbatim>\<open>Export\<close>, so each value is just the address of one;
  \<^item> \<^verbatim>\<open>FileNode\<close>;
  \<^item> \<^verbatim>\<open>DependencyGraph = Map<string, FileNode>\<close>: each value the address of a node.

  An \<^verbatim>\<open>ImportDetails\<close> object has seven fields that no function of the file assigns
  after creation, and no function compares two such objects; it is the record of the
  addresses its fields hold.  Two references to one \<^verbatim>\<open>ImportDetails\<close> object are two
  copies of that record: they name the same sets and maps.  In the same way the object
  \<^verbatim>\<open>imports\<close> of a node is flattened into the three fields \<open>imports_internal\<close>,
  \<open>imports_external\<close> and \<open>imports_unresolved\<close>.
\<close>

type_synonym addr = nat

record import_details =
  refs :: addr
  imported :: addr
  importedAs :: addr
  importedNs :: addr
  reExported :: addr
  reExportedAs :: addr
  reExportedNs :: addr

text \<open>
  The field \<^verbatim>\<open>imported\<close> of a node is optional and \<^verbatim>\<open>createFileNode\<close> leaves it
  undefined.  It is named \<open>node_imported\<close> here, \<open>imported\<close> being the field of
  \<^typ>\<open>import_details\<close>.
\<close>

record file_node =
  imports_internal :: addr
  imports_external :: addr
  imports_unresolved :: addr
  exports :: addr
  node_imported :: "import_details option"
  duplicates :: addr
  scripts :: addr
  traceRefs :: addr

record heap =
  sets :: "addr \<Rightarrow> string list"
  idmaps :: "addr \<Rightarrow> (string \<times> addr) list"
  nsmaps :: "addr \<Rightarrow> (string \<times> addr) list"
  detailmaps :: "addr \<Rightarrow> (string \<times> import_details) list"
  exportmaps :: "addr \<Rightarrow> (string \<times> addr) list"
  nodes :: "addr \<Rightarrow> file_node"
  graphs :: "addr \<Rightarrow> (string \<times> addr) list"
  fresh :: addr

text \<open>
  \<^verbatim>\<open>map.has(k)\<close> and \<^verbatim>\<open>map.get(k)\<close> are \<^const>\<open>map_of\<close> on the list of entries, and
  \<^verbatim>\<open>map.set(k, v)\<close> is \<^const>\<open>AList.update\<close>: the value of an existing key is replaced in
  place, a new key is appended.

  A \<^verbatim>\<open>for ... of\<close> loop over a set or a map is a \<^const>\<open>fold\<close> over the entries the
  collection has when the loop starts.  JavaScript would also visit entries added during
  the loop; but the loops of this file add to the collection they iterate only when the
  source and the target are the same object, and then every element or key they add is
  already present, so that nothing is added.
\<close>

text \<open>\<^verbatim>\<open>new Set(xs)\<close>, \<^verbatim>\<open>new Map(...)\<close> and object literals take the next free address.\<close>

definition new_set :: "string list \<Rightarrow> heap \<Rightarrow> addr \<times> heap" where
  "new_set xs h = (fresh h, h\<lparr>sets := (sets h)(fresh h := xs), fresh := Suc (fresh h)\<rparr>)"

definition new_idmap :: "(string \<times> addr) list \<Rightarrow> heap \<Rightarrow> addr \<times> heap" where
  "new_idmap es h = (fresh h, h\<lparr>idmaps := (idmaps h)(fresh h := es), fresh := Suc (fresh h)\<rparr>)"

definition new_nsmap :: "(string \<times> addr) list \<Rightarrow> heap \<Rightarrow> addr \<times> heap" where
  "new_nsmap es h = (fresh h, h\<lparr>nsmaps := (nsmaps h)(fresh h := es), fresh := Suc (fresh h)\<rparr>)"

definition new_detailmap :: "heap \<Rightarrow> addr \<times> heap" where
  "new_detailmap h =
     (fresh h, h\<lparr>detailmaps := (detailmaps h)(fresh h := []), fresh := Suc (fresh h)\<rparr>)"

definition new_exportmap :: "heap \<Rightarrow> addr \<times> heap" where
  "new_exportmap h =
     (fresh h, h\<lparr>exportmaps := (exportmaps h)(fresh h := []), fresh := Suc (fresh h)\<rparr>)"

definition new_node :: "file_node \<Rightarrow> heap \<Rightarrow> addr \<times> heap" where
  "new_node n h = (fresh h, h\<lparr>nodes := (nodes h)(fresh h := n), fresh := Suc (fresh h)\<rparr>)"

definition new_graph :: "heap \<Rightarrow> addr \<times> heap" where
  "new_graph h = (fresh h, h\<lparr>graphs := (graphs h)(fresh h := []), fresh := Suc (fresh h)\<rparr>)"

text \<open>\<^verbatim>\<open>set.add(v)\<close>.\<close>

definition set_add :: "addr \<Rightarrow> string \<Rightarrow> heap \<Rightarrow> heap" where
  "set_add s v h =
     h\<lparr>sets := (sets h)(s := (if v \<in> set (sets h s) then sets h s else sets h s @ [v]))\<rparr>"

section \<open>dependency-graph.ts: the factories\<close>

definition createFileNode :: "heap \<Rightarrow> addr \<times> heap" where
  "createFileNode h =
     (let (internal, h1) = new_detailmap h;
          (external, h2) = new_set [] h1;
          (unresolved, h3) = new_set [] h2;
          (exports', h4) = new_exportmap h3;
          (duplicates', h5) = new_set [] h4;
          (scripts', h6) = new_set [] h5;
          (traceRefs', h7) = new_set [] h6
      in new_node \<lparr> imports_internal = internal, imports_external = external,
                    imports_unresolved = unresolved, exports = exports',
                    node_imported = None, duplicates = duplicates', scripts = scripts',
                    traceRefs = traceRefs' \<rparr> h7)"

definition createImports :: "heap \<Rightarrow> import_details \<times> heap" where
  "createImports h =
     (let (refs', h1) = new_set [] h;
          (imported', h2) = new_idmap [] h1;
          (importedAs', h3) = new_nsmap [] h2;
          (importedNs', h4) = new_idmap [] h3;
          (reExported', h5) = new_idmap [] h4;
          (reExportedAs', h6) = new_nsmap [] h5;
          (reExportedNs', h7) = new_idmap [] h6
      in (\<lparr> refs = refs', imported = imported', importedAs = importedAs',
            importedNs = importedNs', reExported = reExported',
            reExportedAs = reExportedAs', reExportedNs = reExportedNs' \<rparr>, h7))"

section \<open>dependency-graph.ts: adding values\<close>

definition addValue :: "addr \<Rightarrow> string \<Rightarrow> string \<Rightarrow> heap \<Rightarrow> heap" where
  "addValue map' id' value' h =
     (case map_of (idmaps h map') id' of
        Some s \<Rightarrow> set_add s value' h
      | None \<Rightarrow>
          let (s, h1) = new_set [value'] h
          in h1\<lparr>idmaps := (idmaps h1)(map' := AList.update id' s (idmaps h1 map'))\<rparr>)"

definition addNsValue :: "addr \<Rightarrow> string \<Rightarrow> string \<Rightarrow> string \<Rightarrow> heap \<Rightarrow> heap" where
  "addNsValue map' id' ns value' h =
     (case map_of (nsmaps h map') id' of
        Some inner \<Rightarrow>
          (case map_of (idmaps h inner) ns of
             Some s \<Rightarrow> set_add s value' h
           | None \<Rightarrow>
               let (s, h1) = new_set [value'] h
               in h1\<lparr>idmaps := (idmaps h1)(inner := AList.update ns s (idmaps h1 inner))\<rparr>)
      | None \<Rightarrow>
          let (s, h1) = new_set [value'] h;
              (inner, h2) = new_idmap [(ns, s)] h1
          in h2\<lparr>nsmaps := (nsmaps h2)(map' := AList.update id' inner (nsmaps h2 map'))\<rparr>)"

text \<open>
  \<^verbatim>\<open>addValues\<close>: when the key is present the elements of \<^verbatim>\<open>values\<close> are added to the
  set stored under it; otherwise the map stores the set \<^verbatim>\<open>values\<close> itself, not a copy.
\<close>

definition addValues :: "addr \<Rightarrow> string \<Rightarrow> addr \<Rightarrow> heap \<Rightarrow> heap" where
  "addValues map' id' values' h =
     (if map_of (idmaps h map') id' \<noteq> None
      then fold (\<lambda>v h. case map_of (idmaps h map') id' of
                          Some s \<Rightarrow> set_add s v h
                        | None \<Rightarrow> h)
             (sets h values') h
      else h\<lparr>idmaps := (idmaps h)(map' := AList.update id' values' (idmaps h map'))\<rparr>)"

text \<open>\<^verbatim>\<open>addNsValues\<close>: likewise, one level up; an absent key stores the map \<^verbatim>\<open>value\<close> itself.\<close>

definition addNsValues :: "addr \<Rightarrow> string \<Rightarrow> addr \<Rightarrow> heap \<Rightarrow> heap" where
  "addNsValues map' id' value' h =
     (if map_of (nsmaps h map') id' \<noteq> None
      then fold (\<lambda>(ns, v) h. case map_of (nsmaps h map') id' of
                                Some inner \<Rightarrow> addValues inner ns v h
                              | None \<Rightarrow> h)
             (idmaps h value') h
      else h\<lparr>nsmaps := (nsmaps h)(map' := AList.update id' value' (nsmaps h map'))\<rparr>)"

section \<open>dependency-graph.ts: merging import details\<close>

definition updateImportDetails :: "import_details \<Rightarrow> import_details \<Rightarrow> heap \<Rightarrow> heap" where
  "updateImportDetails importedModule importItems h =
     (let h1 = fold (\<lambda>id'. set_add (refs importedModule) id') (sets h (refs importItems)) h;
          h2 = fold (\<lambda>(id', v). addValues (imported importedModule) id' v)
                 (idmaps h1 (imported importItems)) h1;
          h3 = fold (\<lambda>(id', v). addNsValues (importedAs importedModule) id' v)
                 (nsmaps h2 (importedAs importItems)) h2;
          h4 = fold (\<lambda>(id', v). addValues (importedNs importedModule) id' v)
                 (idmaps h3 (importedNs importItems)) h3;
          h5 = fold (\<lambda>(id', v). addValues (reExported importedModule) id' v)
                 (idmaps h4 (reExported importItems)) h4;
          h6 = fold (\<lambda>(id', v). addNsValues (reExportedAs importedModule) id' v)
                 (nsmaps h5 (reExportedAs importItems)) h5
      in fold (\<lambda>(id', v). addValues (reExportedNs importedModule) id' v)
           (idmaps h6 (reExportedNs importItems)) h6)"

section \<open>dependency-graph.ts: nodes of the graph\<close>

text \<open>\<^verbatim>\<open>graph.get(filePath) ?? createFileNode()\<close>: the graph is read, never written.\<close>

definition getOrCreateFileNode :: "addr \<Rightarrow> string \<Rightarrow> heap \<Rightarrow> addr \<times> heap" where
  "getOrCreateFileNode graph filePath h =
     (case map_of (graphs h graph) filePath of
        Some n \<Rightarrow> (n, h)
      | None \<Rightarrow> createFileNode h)"

text \<open>
  The body of the loop of \<^verbatim>\<open>updateImportMap\<close>, for one entry of \<^verbatim>\<open>importMap\<close>.  Where the
  entry is absent, the node and the map \<^verbatim>\<open>imports.internal\<close> store \<^verbatim>\<open>importDetails\<close>
  itself.
\<close>

definition updateImportMap_entry ::
  "addr \<Rightarrow> addr \<Rightarrow> string \<times> import_details \<Rightarrow> heap \<Rightarrow> heap" where
  "updateImportMap_entry file' graph entry h =
     (let importedFilePath = fst entry;
          importDetails = snd entry;
          internal = imports_internal (nodes h file');
          h1 = (case map_of (detailmaps h internal) importedFilePath of
                  None \<Rightarrow>
                    h\<lparr>detailmaps := (detailmaps h)
                         (internal := AList.update importedFilePath importDetails
                                        (detailmaps h internal))\<rparr>
                | Some importedFileImports \<Rightarrow>
                    updateImportDetails importedFileImports importDetails h);
          (importedFile, h2) = getOrCreateFileNode graph importedFilePath h1;
          h3 = (case node_imported (nodes h2 importedFile) of
                  None \<Rightarrow>
                    h2\<lparr>nodes := (nodes h2)
                         (importedFile := (nodes h2 importedFile)
                                            \<lparr>node_imported := Some importDetails\<rparr>)\<rparr>
                | Some d \<Rightarrow> updateImportDetails d importDetails h2)
      in h3\<lparr>graphs := (graphs h3)
              (graph := AList.update importedFilePath importedFile (graphs h3 graph))\<rparr>)"

text \<open>\<^verbatim>\<open>importMap\<close> is only read: it is the list of its entries.\<close>

definition updateImportMap ::
  "addr \<Rightarrow> (string \<times> import_details) list \<Rightarrow> addr \<Rightarrow> heap \<Rightarrow> heap" where
  "updateImportMap file' importMap graph h = fold (updateImportMap_entry file' graph) importMap h"

section \<open>Reading the store\<close>

text \<open>The content of a set, of a map of sets and of a map of maps of sets.\<close>

definition set_content :: "heap \<Rightarrow> addr \<Rightarrow> string set" where
  "set_content h s = set (sets h s)"

definition idmap_content :: "heap \<Rightarrow> addr \<Rightarrow> string \<rightharpoonup> string set" where
  "idmap_content h m = (\<lambda>k. map_option (set_content h) (map_of (idmaps h m) k))"

definition nsmap_content :: "heap \<Rightarrow> addr \<Rightarrow> string \<rightharpoonup> (string \<rightharpoonup> string set)" where
  "nsmap_content h m = (\<lambda>k. map_option (idmap_content h) (map_of (nsmaps h m) k))"

text \<open>The content of an \<^verbatim>\<open>ImportDetails\<close>, field by field.\<close>

record details_content =
  c_refs :: "string set"
  c_imported :: "string \<rightharpoonup> string set"
  c_importedAs :: "string \<rightharpoonup> (string \<rightharpoonup> string set)"
  c_importedNs :: "string \<rightharpoonup> string set"
  c_reExported :: "string \<rightharpoonup> string set"
  c_reExportedAs :: "string \<rightharpoonup> (string \<rightharpoonup> string set)"
  c_reExportedNs :: "string \<rightharpoonup> string set"

definition content :: "heap \<Rightarrow> import_details \<Rightarrow> details_content" where
  "content h d =
     \<lparr> c_refs = set_content h (refs d),
       c_imported = idmap_content h (imported d),
       c_importedAs = nsmap_content h (importedAs d),
       c_importedNs = idmap_content h (importedNs d),
       c_reExported = idmap_content h (reExported d),
       c_reExportedAs = nsmap_content h (reExportedAs d),
       c_reExportedNs = idmap_content h (reExportedNs d) \<rparr>"

text \<open>
  The content of the entry of a node's \<^verbatim>\<open>imports.internal\<close> for a target path, and the
  content of a node's \<^verbatim>\<open>imported\<close>; \<open>None\<close> where there is none.
\<close>

definition internal_content :: "heap \<Rightarrow> addr \<Rightarrow> string \<Rightarrow> details_content option" where
  "internal_content h n path =
     map_option (content h) (map_of (detailmaps h (imports_internal (nodes h n))) path)"

definition imported_content :: "heap \<Rightarrow> addr \<Rightarrow> details_content option" where
  "imported_content h n = map_option (content h) (node_imported (nodes h n))"

section \<open>The scenario of three files\<close>

text \<open>
  The store before any call of \<^verbatim>\<open>updateImportMap\<close>: nothing is allocated.
\<close>

definition empty_heap :: heap where
  "empty_heap =
     \<lparr> sets = (\<lambda>a. []), idmaps = (\<lambda>a. []), nsmaps = (\<lambda>a. []), detailmaps = (\<lambda>a. []),
       exportmaps = (\<lambda>a. []),
       nodes = (\<lambda>a. \<lparr> imports_internal = 0, imports_external = 0, imports_unresolved = 0,
                      exports = 0, node_imported = None, duplicates = 0, scripts = 0,
                      traceRefs = 0 \<rparr>),
       graphs = (\<lambda>a. []), fresh = 0 \<rparr>"

text \<open>
  Files \<open>a\<close> and \<open>b\<close> both import the identifier \<open>x\<close> from file \<open>c\<close>.  The graph holds a
  fresh node for each file; the import map of \<open>a\<close> has the one entry \<open>c\<close>, whose
  \<^verbatim>\<open>ImportDetails\<close> is built by \<^verbatim>\<open>createImports\<close> and \<^verbatim>\<open>addValue(imported, x, a)\<close>, and
  likewise for \<open>b\<close>; the import map of \<open>c\<close> is empty.
\<close>

record scenario =
  sc_heap :: heap
  sc_graph :: addr
  node_a :: addr
  node_b :: addr
  node_c :: addr
  details_a :: import_details
  details_b :: import_details

definition three_files :: "string \<Rightarrow> string \<Rightarrow> string \<Rightarrow> string \<Rightarrow> scenario" where
  "three_files a b c x =
     (let (g, h0) = new_graph empty_heap;
          (na, h1) = createFileNode h0;
          (nb, h2) = createFileNode h1;
          (nc, h3) = createFileNode h2;
          h4 = h3\<lparr>graphs := (graphs h3)
                  (g := AList.update c nc (AList.update b nb (AList.update a na (graphs h3 g))))\<rparr>;
          (da, h5) = createImports h4;
          h6 = addValue (imported da) x a h5;
          (db, h7) = createImports h6;
          h8 = addValue (imported db) x b h7
      in \<lparr> sc_heap = h8, sc_graph = g, node_a = na, node_b = nb, node_c = nc,
           details_a = da, details_b = db \<rparr>)"

datatype file_id = File_a | File_b | File_c

text \<open>The call of \<^verbatim>\<open>updateImportMap\<close> for one file of the scenario, and for a list of them.\<close>

definition analyse :: "string \<Rightarrow> scenario \<Rightarrow> file_id \<Rightarrow> heap \<Rightarrow> heap" where
  "analyse c sc f h =
     (case f of
        File_a \<Rightarrow> updateImportMap (node_a sc) [(c, details_a sc)] (sc_graph sc) h
      | File_b \<Rightarrow> updateImportMap (node_b sc) [(c, details_b sc)] (sc_graph sc) h
      | File_c \<Rightarrow> updateImportMap (node_c sc) [] (sc_graph sc) h)"

definition analyse_all :: "string \<Rightarrow> string \<Rightarrow> string \<Rightarrow> string \<Rightarrow> file_id list \<Rightarrow> heap" where
  "analyse_all a b c x order =
     (let sc = three_files a b c x in fold (analyse c sc) order (sc_heap sc))"

section \<open>Notions used in the statements and proofs about the store\<close>

text \<open>
  The list a set holds after the elements of \<open>xs\<close> have been added to it one by one,
  each at the end unless it is already there.
\<close>

definition insert_all :: "string list \<Rightarrow> string list \<Rightarrow> string list" where
  "insert_all ys xs = fold (\<lambda>v ys. if v \<in> set ys then ys else ys @ [v]) xs ys"

text \<open>The components of the store that merging import details never touches.\<close>

definition graph_side ::
  "heap \<Rightarrow> (addr \<Rightarrow> (string \<times> import_details) list) \<times> (addr \<Rightarrow> (string \<times> addr) list) \<times>
     (addr \<Rightarrow> file_node) \<times> (addr \<Rightarrow> (string \<times> addr) list) \<times> addr" where
  "graph_side h = (detailmaps h, exportmaps h, nodes h, graphs h, fresh h)"

text \<open>
  The node \<^verbatim>\<open>getOrCreateFileNode\<close> returns inside \<^verbatim>\<open>updateImportMap\<close>: the registered
  one, or the node object that \<^verbatim>\<open>createFileNode\<close> allocates after the seven collections
  of the node.
\<close>

definition target_node :: "addr \<Rightarrow> string \<Rightarrow> heap \<Rightarrow> addr" where
  "target_node g p h = (case map_of (graphs h g) p of Some n \<Rightarrow> n | None \<Rightarrow> fresh h + 7)"

text \<open>Two states of a node that agree on every field except \<^verbatim>\<open>imported\<close>.\<close>

definition node_frame :: "file_node \<Rightarrow> file_node \<Rightarrow> bool" where
  "node_frame a b =
     (imports_internal a = imports_internal b \<and> imports_external a = imports_external b \<and>
      imports_unresolved a = imports_unresolved b \<and> exports a = exports b \<and>
      duplicates a = duplicates b \<and> scripts a = scripts b \<and> traceRefs a = traceRefs b)"

text \<open>
  The entries of the maps of an import details with the content of their sets, in
  insertion order, and the content they stand for.
\<close>

definition idmap_entries :: "heap \<Rightarrow> addr \<Rightarrow> (string \<times> string set) list" where
  "idmap_entries h m = map (\<lambda>(k, s). (k, set_content h s)) (idmaps h m)"

definition nsmap_entries :: "heap \<Rightarrow> addr \<Rightarrow> (string \<times> (string \<times> string set) list) list" where
  "nsmap_entries h m = map (\<lambda>(k, i). (k, idmap_entries h i)) (nsmaps h m)"

type_synonym entries =
  "string set \<times> (string \<times> string set) list \<times> (string \<times> (string \<times> string set) list) list \<times>
   (string \<times> string set) list \<times> (string \<times> string set) list \<times>
   (string \<times> (string \<times> string set) list) list \<times> (string \<times> string set) list"

definition details_entries :: "heap \<Rightarrow> import_details \<Rightarrow> entries" where
  "details_entries h d =
     (set_content h (refs d), idmap_entries h (imported d), nsmap_entries h (importedAs d),
      idmap_entries h (importedNs d), idmap_entries h (reExported d),
      nsmap_entries h (reExportedAs d), idmap_entries h (reExportedNs d))"

definition entries_content :: "entries \<Rightarrow> details_content" where
  "entries_content e =
     (case e of (r, i, ia, ins, re, rea, rens) \<Rightarrow>
        \<lparr> c_refs = r, c_imported = map_of i,
          c_importedAs = map_of (map (\<lambda>(k, es). (k, map_of es)) ia),
          c_importedNs = map_of ins, c_reExported = map_of re,
          c_reExportedAs = map_of (map (\<lambda>(k, es). (k, map_of es)) rea),
          c_reExportedNs = map_of rens \<rparr>)"

definition internal_entries :: "heap \<Rightarrow> addr \<Rightarrow> (string \<times> entries) list" where
  "internal_entries h n =
     map (\<lambda>(p, d). (p, details_entries h d)) (detailmaps h (imports_internal (nodes h n)))"

definition imported_entries :: "heap \<Rightarrow> addr \<Rightarrow> entries option" where
  "imported_entries h n = map_option (details_entries h) (node_imported (nodes h n))"

text \<open>What the scenario of three files shows of a store.\<close>

definition observe ::
  "scenario \<Rightarrow> heap \<Rightarrow> (string \<times> addr) list \<times> (string \<times> entries) list \<times>
     (string \<times> entries) list \<times> (string \<times> entries) list \<times> entries option \<times> entries option \<times>
     entries option" where
  "observe sc h =
     (graphs h (sc_graph sc),
      internal_entries h (node_a sc), internal_entries h (node_b sc), internal_entries h (node_c sc),
      imported_entries h (node_a sc), imported_entries h (node_b sc), imported_entries h (node_c sc))"

text \<open>
  The orders of analysis of the scenario, which are the lists that name each of the three
  files once, and the reverse index of the file that two files \<open>a\<close> and \<open>b\<close> import \<open>x\<close>
  from.
\<close>

definition orders :: "file_id list set" where
  "orders = {ord. distinct ord \<and> set ord = {File_a, File_b, File_c}}"

definition both_import :: "string \<Rightarrow> string \<Rightarrow> string \<Rightarrow> details_content" where
  "both_import a b x =
     \<lparr> c_refs = {}, c_imported = [x \<mapsto> {a, b}], c_importedAs = Map.empty,
       c_importedNs = Map.empty, c_reExported = Map.empty, c_reExportedAs = Map.empty,
       c_reExportedNs = Map.empty \<rparr>"

section \<open>Notions used in the statements about the frame of \<^verbatim>\<open>updateImportMap\<close>\<close>

text \<open>
  A region of the store is a set \<open>N\<close> of maps from identifiers to maps, a set \<open>M\<close> of maps
  from identifiers to sets, and a set \<open>S\<close> of sets.  It is closed when the maps of \<open>N\<close> hold
  only maps of \<open>M\<close> and the maps of \<open>M\<close> hold only sets of \<open>S\<close>, and import details are rooted
  in it when their seven collections belong to it.  Whatever can be reached from import
  details rooted in a closed region is in the region.
\<close>

definition closed :: "heap \<Rightarrow> addr set \<Rightarrow> addr set \<Rightarrow> addr set \<Rightarrow> bool" where
  "closed h N M S =
     ((\<forall>n\<in>N. snd ` set (nsmaps h n) \<subseteq> M) \<and> (\<forall>m\<in>M. snd ` set (idmaps h m) \<subseteq> S))"

definition rooted :: "import_details \<Rightarrow> addr set \<Rightarrow> addr set \<Rightarrow> addr set \<Rightarrow> bool" where
  "rooted d N M S =
     (refs d \<in> S \<and> imported d \<in> M \<and> importedNs d \<in> M \<and> reExported d \<in> M \<and>
      reExportedNs d \<in> M \<and> importedAs d \<in> N \<and> reExportedAs d \<in> N)"

text \<open>
  Outside of the maps \<open>N\<close> and \<open>M\<close> and the sets \<open>R\<close> the store \<open>g\<close> is the store \<open>h\<close>; and
  the invariant of the loops: the region is still closed and nothing has changed outside
  of it.
\<close>

definition same_outside :: "addr set \<Rightarrow> addr set \<Rightarrow> addr set \<Rightarrow> heap \<Rightarrow> heap \<Rightarrow> bool" where
  "same_outside N M R h g =
     ((\<forall>a. a \<notin> R \<longrightarrow> sets g a = sets h a) \<and> (\<forall>a. a \<notin> M \<longrightarrow> idmaps g a = idmaps h a) \<and>
      (\<forall>a. a \<notin> N \<longrightarrow> nsmaps g a = nsmaps h a))"

definition stays ::
  "addr set \<Rightarrow> addr set \<Rightarrow> addr set \<Rightarrow> addr set \<Rightarrow> heap \<Rightarrow> heap \<Rightarrow> bool" where
  "stays N M S R h g = (closed g N M S \<and> same_outside N M R h g)"

text \<open>
  The import details that a call \<^verbatim>\<open>updateImportMap(file, importMap, graph)\<close> works on: the
  values of \<^verbatim>\<open>importMap\<close>, and, for its keys, the entries that \<^verbatim>\<open>imports.internal\<close> of the
  source node has and the \<^verbatim>\<open>imported\<close> that the registered nodes have, before the call.
\<close>

definition involved ::
  "heap \<Rightarrow> addr \<Rightarrow> addr \<Rightarrow> (string \<times> import_details) list \<Rightarrow> import_details set" where
  "involved h f g im =
     snd ` set im \<union>
     {d. \<exists>k\<in>fst ` set im. map_of (detailmaps h (imports_internal (nodes h f))) k = Some d} \<union>
     {d. \<exists>k\<in>fst ` set im. \<exists>n. map_of (graphs h g) k = Some n \<and>
           node_imported (nodes h n) = Some d}"

text \<open>
  Nothing that was allocated in \<open>h\<close> is overwritten in \<open>g\<close>: every set and every map of sets
  or of maps starts with the elements and entries it had, in the same order.
\<close>

definition extends :: "heap \<Rightarrow> heap \<Rightarrow> bool" where
  "extends h g =
     (fresh h \<le> fresh g \<and> (\<forall>a<fresh h. prefix (sets h a) (sets g a)) \<and>
      (\<forall>a. prefix (idmaps h a) (idmaps g a)) \<and> (\<forall>a. prefix (nsmaps h a) (nsmaps g a)))"

text \<open>
  The node \<open>n\<close> was made between the stores \<open>h\<close> and \<open>g\<close>, as \<^verbatim>\<open>createFileNode\<close> makes it: the
  node and its seven collections were not allocated in \<open>h\<close> and are in \<open>g\<close>, its five sets
  are five objects, its maps and sets are empty, and its \<^verbatim>\<open>imported\<close> is \<open>d\<close>.
\<close>

definition synthesized :: "heap \<Rightarrow> heap \<Rightarrow> addr \<Rightarrow> import_details option \<Rightarrow> bool" where
  "synthesized h g n d =
     (fresh h \<le> n \<and> n < fresh g \<and> node_imported (nodes g n) = d \<and>
      (\<forall>a\<in>{imports_internal (nodes g n), imports_external (nodes g n),
             imports_unresolved (nodes g n), exports (nodes g n), duplicates (nodes g n),
             scripts (nodes g n), traceRefs (nodes g n)}. fresh h \<le> a \<and> a < fresh g) \<and>
      distinct [imports_external (nodes g n), imports_unresolved (nodes g n),
        duplicates (nodes g n), scripts (nodes g n), traceRefs (nodes g n)] \<and>
      detailmaps g (imports_internal (nodes g n)) = [] \<and>
      exportmaps g (exports (nodes g n)) = [] \<and>
      (\<forall>a\<in>{imports_external (nodes g n), imports_unresolved (nodes g n),
             duplicates (nodes g n), scripts (nodes g n), traceRefs (nodes g n)}. sets g a = []))"

text \<open>
  A store with a graph, one node and one import details, all empty: the node is at
  address 8, with its \<^verbatim>\<open>imports.internal\<close> at address 1, and the import details have the
  addresses 9 to 15.
\<close>

definition one_import :: heap where
  "one_import = snd (createImports (snd (createFileNode (snd (new_graph empty_heap)))))"

section \<open>Notions used in the statements and proofs about merging import details\<close>

text \<open>
  The loops of \<^verbatim>\<open>updateImportDetails\<close> over the entries of an \<^verbatim>\<open>IdToFileMap\<close> and of an
  \<^verbatim>\<open>IdToNsToFileMap\<close> of the source, as functions of the list of entries.
\<close>

definition merge_idmap :: "addr \<Rightarrow> (string \<times> addr) list \<Rightarrow> heap \<Rightarrow> heap" where
  "merge_idmap m es h = fold (\<lambda>(k, v). addValues m k v) es h"

definition merge_nsmap :: "addr \<Rightarrow> (string \<times> addr) list \<Rightarrow> heap \<Rightarrow> heap" where
  "merge_nsmap n es h = fold (\<lambda>(k, v). addNsValues n k v) es h"

text \<open>
  The entries of \<open>es\<close> whose key the map with the entries \<open>al\<close> does not have: the entries
  that a merge of \<open>es\<close> into that map adopts.
\<close>

definition absent :: "(string \<times> addr) list \<Rightarrow> (string \<times> addr) list \<Rightarrow> (string \<times> addr) list" where
  "absent al es = filter (\<lambda>(k, v). map_of al k = None) es"





text \<open>
  The places of an \<^verbatim>\<open>ImportDetails\<close>.  Its fields are \<^verbatim>\<open>refs\<close>, the four fields that hold an
  \<^verbatim>\<open>IdToFileMap\<close> and the two that hold an \<^verbatim>\<open>IdToNsToFileMap\<close>.  A \<open>path\<close> leads to a set: it
  is \<^verbatim>\<open>refs\<close>, or a field and an identifier, or a field, an identifier and a namespace.  An
  \<open>mpath\<close> leads to an \<^verbatim>\<open>IdToFileMap\<close>: it is a field, or a field and an identifier whose
  inner map it is.
\<close>

datatype idfield = Imported | ImportedNs | ReExported | ReExportedNs

datatype nsfield = ImportedAs | ReExportedAs

datatype field = FRefs | FId idfield | FNs nsfield

datatype path = PRefs | PId idfield string | PNs nsfield string string


fun idroot :: "idfield \<Rightarrow> import_details \<Rightarrow> addr" where
  "idroot Imported d = imported d"
| "idroot ImportedNs d = importedNs d"
| "idroot ReExported d = reExported d"
| "idroot ReExportedNs d = reExportedNs d"

fun nsroot :: "nsfield \<Rightarrow> import_details \<Rightarrow> addr" where
  "nsroot ImportedAs d = importedAs d"
| "nsroot ReExportedAs d = reExportedAs d"









text \<open>
  The content that the specification gives to a merge: sets are united, and maps are united
  key by key, with the values of a common key united in turn.
\<close>

definition union_with :: "('v \<Rightarrow> 'v \<Rightarrow> 'v) \<Rightarrow> ('k \<rightharpoonup> 'v) \<Rightarrow> ('k \<rightharpoonup> 'v) \<Rightarrow> ('k \<rightharpoonup> 'v)" where
  "union_with f m1 m2 =
     (\<lambda>k. case m1 k of
            None \<Rightarrow> m2 k
          | Some a \<Rightarrow> (case m2 k of None \<Rightarrow> Some a | Some b \<Rightarrow> Some (f a b)))"

definition content_union :: "details_content \<Rightarrow> details_content \<Rightarrow> details_content" where
  "content_union x y =
     \<lparr> c_refs = c_refs x \<union> c_refs y,
       c_imported = union_with (\<union>) (c_imported x) (c_imported y),
       c_importedAs = union_with (union_with (\<union>)) (c_importedAs x) (c_importedAs y),
       c_importedNs = union_with (\<union>) (c_importedNs x) (c_importedNs y),
       c_reExported = union_with (\<union>) (c_reExported x) (c_reExported y),
       c_reExportedAs = union_with (union_with (\<union>)) (c_reExportedAs x) (c_reExportedAs y),
       c_reExportedNs = union_with (\<union>) (c_reExportedNs x) (c_reExportedNs y) \<rparr>"



text \<open>
  Nothing is overwritten between the stores \<open>h\<close> and \<open>g\<close>: every set and every map of \<open>g\<close>
  starts with the elements and entries it has in \<open>h\<close>, in the same order.
\<close>

definition grows :: "heap \<Rightarrow> heap \<Rightarrow> bool" where
  "grows h g =
     (\<forall>a. prefix (sets h a) (sets g a) \<and> prefix (idmaps h a) (idmaps g a) \<and>
          prefix (nsmaps h a) (nsmaps g a))"





section \<open>Properties of the pattern normalisation\<close>

lemma endsWith_single: "endsWith s [c] = (s \<noteq> [] \<and> last s = c)"
  by (cases s rule: rev_cases) (auto simp: endsWith_def)

lemma startsWith_Cons: "startsWith (c # s) (d # p) = (c = d \<and> startsWith s p)"
  by (auto simp: startsWith_def)

lemma startsWith_Nil: "startsWith [] (d # p) = False" "startsWith s [] = True"
  by (auto simp: startsWith_def)

lemma slice_simps: "slice_from (Suc 0) (c # s) = s" "slice_butlast (s @ [c]) = s"
  by (auto simp: slice_from_def slice_butlast_def)

lemma convert_trailing_slash:
  assumes "\<not> endsWith p ''/''"
  shows "convertGitignoreToPicomatchIgnorePatterns (p @ ''/'') =
         convertGitignoreToPicomatchIgnorePatterns p"
proof (cases p)
  case Nil
  show ?thesis unfolding Nil by code_simp
next
  case (Cons c cs)
  have A: "endsWith (x @ ''/'') ''/''" for x
    by (simp add: endsWith_single)
  have B: "slice_butlast (x @ ''/'') = x" for x
    by (simp add: slice_butlast_def)
  have C: "\<not> endsWith cs ''/''"
    using assms Cons by (auto simp: endsWith_single)
  have D: "\<not> endsWith (c # cs) ''/''"
    using assms Cons by simp
  show ?thesis
  proof (cases "c = CHR ''!''")
    case True
    show ?thesis
      unfolding convertGitignoreToPicomatchIgnorePatterns_def Cons True
      by (simp add: Let_def A B C slice_from_def split del: if_split cong del: if_weak_cong)
  next
    case False
    then show ?thesis
      unfolding convertGitignoreToPicomatchIgnorePatterns_def Cons
      using A [of "c # cs"] B [of "c # cs"]
      by (simp add: Let_def D slice_from_def split del: if_split cong del: if_weak_cong)
  qed
qed

lemma convert_anchored:
  assumes "q \<noteq> []" "\<not> endsWith q ''/''"
  shows "convertGitignoreToPicomatchIgnorePatterns (''/'' @ q) =
         \<lparr> negated = False, patterns = [q, if endsWith q ''/*'' then q else q @ ''/**''] \<rparr>"
  using assms
  by (simp add: convertGitignoreToPicomatchIgnorePatterns_def endsWith_single startsWith_Cons
      startsWith_Nil slice_simps Let_def)

lemma convert_unanchored:
  assumes "take 1 p \<noteq> ''!''" "\<not> endsWith p ''/''" "\<not> startsWith p ''*/**/''"
    "\<not> startsWith p ''/''" "\<not> startsWith p ''**/''" "\<not> endsWith (''**/'' @ p) ''/*''"
  shows "convertGitignoreToPicomatchIgnorePatterns p =
           \<lparr> negated = False, patterns = [''**/'' @ p, ''**/'' @ p @ ''/**''] \<rparr>"
    and "convertGitignoreToPicomatchIgnorePatterns (''!'' @ p) =
           \<lparr> negated = True, patterns = [''**/'' @ p, ''**/'' @ p @ ''/**''] \<rparr>"
  using assms
  by (simp_all add: convertGitignoreToPicomatchIgnorePatterns_def slice_simps Let_def)

text \<open>
  Claim C4, as the code has it.  The claim gives \<^verbatim>\<open>{"build", "build/**"}\<close> for the pattern
  \<^verbatim>\<open>"build/"\<close>; the code strips the trailing slash and then, the pattern having no
  leading slash, adds the prefix \<^verbatim>\<open>**/\<close>.
\<close>

theorem trailing_slash_counterexample:
  "convertGitignoreToPicomatchIgnorePatterns ''build/'' \<noteq>
     \<lparr> negated = False, patterns = [''build'', ''build/**''] \<rparr>"
  by code_simp

text \<open>
  Claim C4, amended: \<^verbatim>\<open>"build/"\<close> gives the pair \<^verbatim>\<open>**/build\<close>, \<^verbatim>\<open>**/build/**\<close> and
  \<^verbatim>\<open>"/root.txt"\<close> gives the pair \<^verbatim>\<open>root.txt\<close>, \<^verbatim>\<open>root.txt/**\<close>.  A trailing slash is
  stripped: a pattern and the same pattern followed by a slash give the same result.  A
  leading slash anchors: it is dropped and no prefix \<^verbatim>\<open>**/\<close> is added.
\<close>

theorem trailing_slash_and_anchoring:
  "convertGitignoreToPicomatchIgnorePatterns ''build/'' =
     \<lparr> negated = False, patterns = [''**/build'', ''**/build/**''] \<rparr>
   \<and> convertGitignoreToPicomatchIgnorePatterns ''/root.txt'' =
     \<lparr> negated = False, patterns = [''root.txt'', ''root.txt/**''] \<rparr>
   \<and> (\<not> endsWith p ''/'' \<longrightarrow>
        convertGitignoreToPicomatchIgnorePatterns (p @ ''/'') =
        convertGitignoreToPicomatchIgnorePatterns p)
   \<and> (q \<noteq> [] \<and> \<not> endsWith q ''/'' \<longrightarrow>
        convertGitignoreToPicomatchIgnorePatterns (''/'' @ q) =
        \<lparr> negated = False, patterns = [q, if endsWith q ''/*'' then q else q @ ''/**''] \<rparr>)"
proof -
  have "convertGitignoreToPicomatchIgnorePatterns ''build/'' =
     \<lparr> negated = False, patterns = [''**/build'', ''**/build/**''] \<rparr>"
    by code_simp
  moreover have "convertGitignoreToPicomatchIgnorePatterns ''/root.txt'' =
     \<lparr> negated = False, patterns = [''root.txt'', ''root.txt/**''] \<rparr>"
    by code_simp
  ultimately show ?thesis
    using convert_trailing_slash [of p] convert_anchored [of q] by blast
qed

theorem trailing_slash_and_anchoring_witness:
  "convertGitignoreToPicomatchIgnorePatterns (''build'' @ ''/'') =
     convertGitignoreToPicomatchIgnorePatterns ''build''
   \<and> convertGitignoreToPicomatchIgnorePatterns (''/'' @ ''root.txt'') =
     \<lparr> negated = False,
       patterns = [''root.txt'', if endsWith ''root.txt'' ''/*'' then ''root.txt''
                                else ''root.txt'' @ ''/**''] \<rparr>"
proof -
  have h: "\<not> endsWith ''build'' ''/''" "''root.txt'' \<noteq> []" "\<not> endsWith ''root.txt'' ''/''"
    by (simp_all add: endsWith_def)
  show ?thesis
    using trailing_slash_and_anchoring [where p = "''build''" and q = "''root.txt''"] h
    by blast
qed

text \<open>
  Claim C5: \<^verbatim>\<open>"*.log"\<close> gives the pair \<^verbatim>\<open>**/*.log\<close>, \<^verbatim>\<open>**/*.log/**\<close>, not negated, and
  \<^verbatim>\<open>"!keep.log"\<close> gives the pair \<^verbatim>\<open>**/keep.log\<close>, \<^verbatim>\<open>**/keep.log/**\<close>, negated.  In
  general a pattern that is not anchored gets the prefix \<^verbatim>\<open>**/\<close>, and when the result does
  not end with \<^verbatim>\<open>/*\<close> the extended variant appends \<^verbatim>\<open>/**\<close>; a leading \<^verbatim>\<open>!\<close> only sets the
  flag.
\<close>

theorem depth_recursive_normalization:
  "convertGitignoreToPicomatchIgnorePatterns ''*.log'' =
     \<lparr> negated = False, patterns = [''**/*.log'', ''**/*.log/**''] \<rparr>
   \<and> convertGitignoreToPicomatchIgnorePatterns ''!keep.log'' =
     \<lparr> negated = True, patterns = [''**/keep.log'', ''**/keep.log/**''] \<rparr>
   \<and> (take 1 p \<noteq> ''!'' \<and> \<not> endsWith p ''/'' \<and> \<not> startsWith p ''*/**/'' \<and>
        \<not> startsWith p ''/'' \<and> \<not> startsWith p ''**/'' \<and> \<not> endsWith (''**/'' @ p) ''/*'' \<longrightarrow>
        convertGitignoreToPicomatchIgnorePatterns p =
          \<lparr> negated = False, patterns = [''**/'' @ p, ''**/'' @ p @ ''/**''] \<rparr>
        \<and> convertGitignoreToPicomatchIgnorePatterns (''!'' @ p) =
          \<lparr> negated = True, patterns = [''**/'' @ p, ''**/'' @ p @ ''/**''] \<rparr>)"
proof -
  have "convertGitignoreToPicomatchIgnorePatterns ''*.log'' =
     \<lparr> negated = False, patterns = [''**/*.log'', ''**/*.log/**''] \<rparr>"
    by code_simp
  moreover have "convertGitignoreToPicomatchIgnorePatterns ''!keep.log'' =
     \<lparr> negated = True, patterns = [''**/keep.log'', ''**/keep.log/**''] \<rparr>"
    by code_simp
  ultimately show ?thesis
    using convert_unanchored [of p] by blast
qed

theorem depth_recursive_normalization_witness:
  "convertGitignoreToPicomatchIgnorePatterns ''dist'' =
     \<lparr> negated = False, patterns = [''**/dist'', ''**/dist/**''] \<rparr>
   \<and> convertGitignoreToPicomatchIgnorePatterns ''!dist'' =
     \<lparr> negated = True, patterns = [''**/dist'', ''**/dist/**''] \<rparr>"
  using depth_recursive_normalization [of "''dist''"]
  by (simp add: endsWith_def startsWith_def)

section \<open>Properties of the ignore file parser\<close>

lemma parse_lines_append: "parse_lines mf (xs @ ys) = parse_lines mf xs @ parse_lines mf ys"
  by (simp add: parse_lines_def)

lemma parse_lines_skip: "trim l = [] \<or> startsWith l ''#'' \<Longrightarrow> parse_lines mf [l] = []"
  by (auto simp: parse_lines_def keep_line_def)

lemma parse_lines_keep:
  "trim l \<noteq> [] \<Longrightarrow> \<not> startsWith l ''#'' \<Longrightarrow>
   parse_lines None [l] = [convertGitignoreToPicomatchIgnorePatterns (strip_line l)]"
  by (auto simp: parse_lines_def keep_line_def relocate_def)

lemma strip_comment_first_unescaped_hash:
  "strip_comment esc l =
     (case first_unescaped_hash esc l of
        None \<Rightarrow> l
      | Some i \<Rightarrow> take i l @ dropWhile (\<lambda>x. \<not> line_terminator x) (drop (Suc i) l))"
  by (induction esc l rule: strip_comment.induct) (auto split: option.splits)

lemma dropWhile_all: "\<forall>x\<in>set xs. P x \<Longrightarrow> dropWhile P xs = []"
  by (induction xs) auto

lemma parse_lines_kept:
  "trim l \<noteq> [] \<Longrightarrow> \<not> startsWith l ''#'' \<Longrightarrow>
   parse_lines mf [l] = map convertGitignoreToPicomatchIgnorePatterns (relocate mf (strip_line l))"
  by (simp add: parse_lines_def keep_line_def)

lemma relocate_length: "length (relocate mf p) \<le> 1"
  by (simp add: relocate_def split: option.splits)

lemma relocate_Nil:
  "relocate mf p = [] \<longleftrightarrow>
     (\<exists>rx. mf = Some rx \<and> rx p = None \<and> (startsWith p ''/'' \<or> startsWith p ''!/'') \<and>
        \<not> startsWith p ''/**/'' \<and> \<not> startsWith p ''!/**/'')"
  by (auto simp: relocate_def split: option.splits)

lemma relocate_match: "rx p = Some r \<Longrightarrow> relocate (Some rx) p = [r]"
  by (simp add: relocate_def)

lemma parseGitignoreFile_from:
  "readFileSync filePath = Some contents \<Longrightarrow> s \<noteq> [] \<Longrightarrow>
   regExp (''^(!?/?)('' @ s @ '')'') = Some rx \<Longrightarrow>
   parseGitignoreFile readFileSync regExp filePath (Some s) =
     Inr (parse_lines (Some rx) (split_lines contents))"
  by (simp add: parseGitignoreFile_def)

lemma parseGitignoreFile_no_from:
  "readFileSync filePath = Some contents \<Longrightarrow> from = None \<or> from = Some [] \<Longrightarrow>
   parseGitignoreFile readFileSync regExp filePath from =
     Inr (parse_lines None (split_lines contents))"
  by (auto simp add: parseGitignoreFile_def)

text \<open>
  Claim C7, as the code has it.  In the file \<^verbatim>\<open>a#b\<close>, carriage return, \<^verbatim>\<open>c\<close> the
  unescaped \<^verbatim>\<open>#\<close> does not truncate the line: the text after the carriage return stays in
  the pattern.  And the line \<^verbatim>\<open>  # note\<close>, which holds a comment only, is not skipped: it
  gives an entry for the empty pattern.
\<close>

theorem ignore_file_line_handling_counterexample:
  "parseGitignoreFile (\<lambda>p. Some [CHR ''a'', CHR ''#'', CHR ''b'', CHR 0x0D, CHR ''c''])
       (\<lambda>s. None) ''.gitignore'' None
     = Inr [\<lparr> negated = False,
              patterns = [[CHR ''*'', CHR ''*'', CHR ''/'', CHR ''a'', CHR 0x0D, CHR ''c''],
                          [CHR ''*'', CHR ''*'', CHR ''/'', CHR ''a'', CHR 0x0D, CHR ''c'',
                           CHR ''/'', CHR ''*'', CHR ''*'']] \<rparr>]
   \<and> parseGitignoreFile (\<lambda>p. Some ''  # note'') (\<lambda>s. None) ''.gitignore'' None
     = Inr [\<lparr> negated = False, patterns = [''**/'', ''**//**''] \<rparr>]"
  by code_simp

text \<open>
  Claim C7, amended.  The entries of a file are those of its lines, each line on its own
  and in order, so no line changes what the other lines give.  A line that is blank
  (empty after trimming) or starts with \<^verbatim>\<open>#\<close> gives no entry.  No other line is rejected as
  malformed.  Its pattern is the line with the comment stripped and the rest trimmed:
  stripping removes the first \<^verbatim>\<open>#\<close> without a backslash before it and the text after it up
  to the next line terminator, and where no line terminator follows, the pattern is the
  trimmed prefix.  Without \<^verbatim>\<open>from\<close> the line gives exactly one entry, the normalised form of
  its pattern.  With \<^verbatim>\<open>from\<close> it gives at most one: the normalised form of the replacement
  where the expression built from \<^verbatim>\<open>from\<close> matches the pattern, and none exactly where it
  does not match and the pattern starts with \<^verbatim>\<open>/\<close> or \<^verbatim>\<open>!/\<close> but not with \<^verbatim>\<open>/**/\<close> or \<^verbatim>\<open>!/**/\<close>.
  Parsing a file that can be read returns these entries when \<^verbatim>\<open>from\<close> is undefined or
  empty, and when \<^verbatim>\<open>RegExp\<close> accepts the expression built from \<^verbatim>\<open>from\<close>.
\<close>

theorem ignore_file_line_handling:
  "parse_lines mf (xs @ [l] @ ys) = parse_lines mf xs @ parse_lines mf [l] @ parse_lines mf ys
   \<and> (trim l = [] \<or> startsWith l ''#'' \<longrightarrow> parse_lines mf [l] = [])
   \<and> (trim l \<noteq> [] \<and> \<not> startsWith l ''#'' \<longrightarrow>
        parse_lines None [l] = [convertGitignoreToPicomatchIgnorePatterns (strip_line l)]
        \<and> parse_lines mf [l] =
            map convertGitignoreToPicomatchIgnorePatterns (relocate mf (strip_line l))
        \<and> length (parse_lines mf [l]) \<le> 1
        \<and> (parse_lines mf [l] = [] \<longleftrightarrow>
             (\<exists>rx. mf = Some rx \<and> rx (strip_line l) = None
                \<and> (startsWith (strip_line l) ''/'' \<or> startsWith (strip_line l) ''!/'')
                \<and> \<not> startsWith (strip_line l) ''/**/''
                \<and> \<not> startsWith (strip_line l) ''!/**/''))
        \<and> (\<forall>rx r. mf = Some rx \<and> rx (strip_line l) = Some r \<longrightarrow>
              parse_lines mf [l] = [convertGitignoreToPicomatchIgnorePatterns r]))
   \<and> strip_line l =
        trim (case first_unescaped_hash False l of
                None \<Rightarrow> l
              | Some i \<Rightarrow> take i l @ dropWhile (\<lambda>x. \<not> line_terminator x) (drop (Suc i) l))
   \<and> (first_unescaped_hash False l = Some i \<and> (\<forall>c\<in>set (drop (Suc i) l). \<not> line_terminator c) \<longrightarrow>
        strip_line l = trim (take i l))
   \<and> (readFileSync filePath = Some contents \<and> (from = None \<or> from = Some []) \<longrightarrow>
        parseGitignoreFile readFileSync regExp filePath from =
        Inr (parse_lines None (split_lines contents)))
   \<and> (readFileSync filePath = Some contents \<and> s \<noteq> []
        \<and> regExp (''^(!?/?)('' @ s @ '')'') = Some rx' \<longrightarrow>
        parseGitignoreFile readFileSync regExp filePath (Some s) =
        Inr (parse_lines (Some rx') (split_lines contents)))"
proof -
  have c1: "parse_lines mf (xs @ [l] @ ys) =
      parse_lines mf xs @ parse_lines mf [l] @ parse_lines mf ys"
    by (simp only: parse_lines_append)
  have c2: "strip_line l =
      trim (case first_unescaped_hash False l of
              None \<Rightarrow> l
            | Some i \<Rightarrow> take i l @ dropWhile (\<lambda>x. \<not> line_terminator x) (drop (Suc i) l))"
    by (simp add: strip_line_def strip_comment_first_unescaped_hash)
  have c3: "strip_line l = trim (take i l)"
    if "first_unescaped_hash False l = Some i" "\<forall>c\<in>set (drop (Suc i) l). \<not> line_terminator c"
    using that
    by (simp add: strip_line_def strip_comment_first_unescaped_hash dropWhile_all)
  have c4: "parse_lines None [l] = [convertGitignoreToPicomatchIgnorePatterns (strip_line l)]
        \<and> parse_lines mf [l] =
            map convertGitignoreToPicomatchIgnorePatterns (relocate mf (strip_line l))
        \<and> length (parse_lines mf [l]) \<le> 1
        \<and> (parse_lines mf [l] = [] \<longleftrightarrow>
             (\<exists>rx. mf = Some rx \<and> rx (strip_line l) = None
                \<and> (startsWith (strip_line l) ''/'' \<or> startsWith (strip_line l) ''!/'')
                \<and> \<not> startsWith (strip_line l) ''/**/''
                \<and> \<not> startsWith (strip_line l) ''!/**/''))
        \<and> (\<forall>rx r. mf = Some rx \<and> rx (strip_line l) = Some r \<longrightarrow>
              parse_lines mf [l] = [convertGitignoreToPicomatchIgnorePatterns r])"
    if k: "trim l \<noteq> []" "\<not> startsWith l ''#''"
  proof -
    note e = parse_lines_kept [OF k, of mf]
    have n: "parse_lines mf [l] = [] \<longleftrightarrow> relocate mf (strip_line l) = []"
      unfolding e by simp
    have len: "length (parse_lines mf [l]) \<le> 1"
      unfolding e using relocate_length [of mf "strip_line l"] by simp
    have m: "parse_lines mf [l] = [convertGitignoreToPicomatchIgnorePatterns r]"
      if "mf = Some rx" "rx (strip_line l) = Some r" for rx r
      unfolding e using that by (simp add: relocate_match)
    show ?thesis
      using parse_lines_keep [OF k] e len m
      unfolding n relocate_Nil [of mf "strip_line l"]
      by blast
  qed
  show ?thesis
    using c1 c2 c3 c4 parse_lines_skip [of l mf]
      parseGitignoreFile_no_from [of readFileSync filePath contents "from" regExp]
      parseGitignoreFile_from [of readFileSync filePath contents s regExp rx']
    by blast
qed

theorem ignore_file_line_handling_witness:
  "parse_lines None ([''*.log''] @ [''# logs''] @ [''dist'']) =
     parse_lines None [''*.log''] @ parse_lines None [''# logs''] @ parse_lines None [''dist'']
   \<and> parse_lines None [''# logs''] = []
   \<and> parse_lines None [''dist # output''] =
       [convertGitignoreToPicomatchIgnorePatterns (strip_line ''dist # output'')]
   \<and> strip_line ''dist # output'' = trim (take 5 ''dist # output'')
   \<and> parseGitignoreFile (\<lambda>p. Some ''dist # output'') (\<lambda>s. None) ''.gitignore'' None =
       Inr (parse_lines None (split_lines ''dist # output''))
   \<and> parse_lines (Some under_src) [''/other''] = []
   \<and> parse_lines (Some under_src) [''/src/lib''] =
       [convertGitignoreToPicomatchIgnorePatterns ''/lib'']
   \<and> parseGitignoreFile (\<lambda>p. Some ''/other'') (\<lambda>s. Some under_src) ''.gitignore''
       (Some ''src/'') = Inr (parse_lines (Some under_src) (split_lines ''/other''))"
proof -
  have h: "first_unescaped_hash False ''dist # output'' = Some 5"
    "\<forall>c\<in>set (drop (Suc 5) ''dist # output''). \<not> line_terminator c"
    "trim ''dist # output'' \<noteq> []" "\<not> startsWith ''dist # output'' ''#''"
    "startsWith ''# logs'' ''#''"
    by code_simp+
  have r: "(\<lambda>p. Some ''dist # output'') ''.gitignore'' = Some ''dist # output''"
    "(\<lambda>p. Some ''/other'') ''.gitignore'' = Some ''/other''"
    "(\<lambda>s. Some under_src) (''^(!?/?)('' @ ''src/'' @ '')'') = Some under_src"
    "''src/'' \<noteq> []"
    by simp_all
  have o: "trim ''/other'' \<noteq> []" "\<not> startsWith ''/other'' ''#''"
    "under_src (strip_line ''/other'') = None"
    "startsWith (strip_line ''/other'') ''/''"
    "\<not> startsWith (strip_line ''/other'') ''/**/''"
    "\<not> startsWith (strip_line ''/other'') ''!/**/''"
    by code_simp+
  have l: "trim ''/src/lib'' \<noteq> []" "\<not> startsWith ''/src/lib'' ''#''"
    "under_src (strip_line ''/src/lib'') = Some ''/lib''"
    by code_simp+
  have 1: "parse_lines None ([''*.log''] @ [''# logs''] @ [''dist'']) =
     parse_lines None [''*.log''] @ parse_lines None [''# logs''] @ parse_lines None [''dist'']
     \<and> parse_lines None [''# logs''] = []"
    using ignore_file_line_handling [where mf = None and xs = "[''*.log'']" and l = "''# logs''"
        and ys = "[''dist'']"] h(5)
    by blast
  have 2: "parse_lines None [''dist # output''] =
       [convertGitignoreToPicomatchIgnorePatterns (strip_line ''dist # output'')]
     \<and> strip_line ''dist # output'' = trim (take 5 ''dist # output'')
     \<and> parseGitignoreFile (\<lambda>p. Some ''dist # output'') (\<lambda>s. None) ''.gitignore'' None =
       Inr (parse_lines None (split_lines ''dist # output''))"
    using ignore_file_line_handling [where l = "''dist # output''" and i = 5
        and readFileSync = "\<lambda>p. Some ''dist # output''" and filePath = "''.gitignore''"
        and contents = "''dist # output''" and regExp = "\<lambda>s. None" and ?from = None]
      h(1-4) r(1)
    by blast
  note other = ignore_file_line_handling [where l = "''/other''" and mf = "Some under_src"
        and readFileSync = "\<lambda>p. Some ''/other''" and filePath = "''.gitignore''"
        and contents = "''/other''" and regExp = "\<lambda>s. Some under_src" and s = "''src/''"
        and rx' = under_src]
  note kept = other [THEN conjunct2, THEN conjunct2, THEN conjunct1, THEN mp,
      OF conjI [OF o(1,2)]]
  have ex: "\<exists>rx. Some under_src = Some rx \<and> rx (strip_line ''/other'') = None
      \<and> (startsWith (strip_line ''/other'') ''/'' \<or> startsWith (strip_line ''/other'') ''!/'')
      \<and> \<not> startsWith (strip_line ''/other'') ''/**/''
      \<and> \<not> startsWith (strip_line ''/other'') ''!/**/''"
    using o(3-6) by blast
  have 3: "parse_lines (Some under_src) [''/other''] = []"
    using kept [THEN conjunct2, THEN conjunct2, THEN conjunct2, THEN conjunct1, THEN iffD2,
      OF ex] .
  have 5: "parseGitignoreFile (\<lambda>p. Some ''/other'') (\<lambda>s. Some under_src) ''.gitignore''
       (Some ''src/'') = Inr (parse_lines (Some under_src) (split_lines ''/other''))"
    using other [THEN conjunct2, THEN conjunct2, THEN conjunct2, THEN conjunct2,
      THEN conjunct2, THEN conjunct2, THEN mp, OF conjI [OF r(2) conjI [OF r(4) r(3)]]] .
  note lib = ignore_file_line_handling [where l = "''/src/lib''" and mf = "Some under_src"]
  note kept_lib = lib [THEN conjunct2, THEN conjunct2, THEN conjunct1, THEN mp,
      OF conjI [OF l(1,2)]]
  have 4: "parse_lines (Some under_src) [''/src/lib''] =
       [convertGitignoreToPicomatchIgnorePatterns ''/lib'']"
    using kept_lib [THEN conjunct2, THEN conjunct2, THEN conjunct2, THEN conjunct2, THEN spec,
      THEN spec, THEN mp, OF conjI [OF refl l(3)]] .
  show ?thesis
    using 1 2 3 4 5 by blast
qed

section \<open>Properties of globby and getGitIgnoredHandler\<close>

lemma fold_upd_other:
  "d \<notin> fst ` set ws \<Longrightarrow> fold (\<lambda>(d, g) c. c(d \<mapsto> g)) ws c d = c d"
  by (induction ws arbitrary: c) (auto split: prod.splits)

text \<open>
  Claim C8: with an empty list of patterns \<^verbatim>\<open>globby\<close> returns the empty list, whatever
  the options and the cache are, and has no effect: the glob engine is not called.
\<close>

theorem empty_input_short_circuit:
  "globby fg dirname cachedIgnores (Many []) opts = Some ([], [])"
  by (simp add: globby_def)

text \<open>
  Claim C10: with \<^verbatim>\<open>gitignore\<close> false the handler answers false for every path, the cache
  is empty after the call and \<^verbatim>\<open>findAndParseGitignores\<close> is not called, so no ignore file
  is read.  Every call starts from the cleared cache: the result does not depend on the
  cache before the call, and after the call the cache has no entry for a directory that
  this call did not write.
\<close>

theorem disabled_ignore_and_cache_reset:
  "(\<not> gitignore opts \<longrightarrow>
      getGitIgnoredHandler findAndParseGitignores picomatch relative cachedIgnores opts =
      ((\<lambda>path. False), Map.empty, []))
   \<and> getGitIgnoredHandler findAndParseGitignores picomatch relative cachedIgnores opts =
     getGitIgnoredHandler findAndParseGitignores picomatch relative cachedIgnores' opts
   \<and> (d \<notin> fst ` set (snd (findAndParseGitignores (cwd opts))) \<longrightarrow>
        fst (snd (getGitIgnoredHandler findAndParseGitignores picomatch relative
                    cachedIgnores opts)) d = None)"
  by (cases "findAndParseGitignores (cwd opts)")
    (simp add: getGitIgnoredHandler_def Let_def fold_upd_other)

theorem disabled_ignore_and_cache_reset_witness:
  "getGitIgnoredHandler
      (\<lambda>c. (\<lparr> ignores = [''**/dist''], unignores = [], gitignoreFiles = [''.gitignore''] \<rparr>,
             [(''/repo'', \<lparr> ignores = [''**/dist''], unignores = [] \<rparr>)]))
      (\<lambda>ps us path. path \<in> set ps) (\<lambda>from to. to)
      [''/old'' \<mapsto> \<lparr> ignores = [''**/stale''], unignores = [] \<rparr>]
      \<lparr> gitignore = False, cwd = ''/repo'' \<rparr> = ((\<lambda>path. False), Map.empty, [])
   \<and> fst (snd (getGitIgnoredHandler
          (\<lambda>c. (\<lparr> ignores = [''**/dist''], unignores = [], gitignoreFiles = [''.gitignore''] \<rparr>,
                 [(''/repo'', \<lparr> ignores = [''**/dist''], unignores = [] \<rparr>)]))
          (\<lambda>ps us path. path \<in> set ps) (\<lambda>from to. to)
          [''/old'' \<mapsto> \<lparr> ignores = [''**/stale''], unignores = [] \<rparr>]
          \<lparr> gitignore = True, cwd = ''/repo'' \<rparr>)) ''/old'' = None"
proof -
  have h: "\<not> gitignore \<lparr> gitignore = False, cwd = ''/repo'' \<rparr>"
    "''/old'' \<notin> fst ` set (snd ((\<lambda>c. (\<lparr> ignores = [''**/dist''], unignores = [],
        gitignoreFiles = [''.gitignore''] \<rparr>,
        [(''/repo'', \<lparr> ignores = [''**/dist''], unignores = [] \<rparr>)]))
      (cwd \<lparr> gitignore = True, cwd = ''/repo'' \<rparr>)))"
    by simp_all
  show ?thesis
    using disabled_ignore_and_cache_reset
        [where opts = "\<lparr> gitignore = False, cwd = ''/repo'' \<rparr>"
          and findAndParseGitignores = "\<lambda>c. (\<lparr> ignores = [''**/dist''], unignores = [],
                 gitignoreFiles = [''.gitignore''] \<rparr>,
                 [(''/repo'', \<lparr> ignores = [''**/dist''], unignores = [] \<rparr>)])"
          and picomatch = "\<lambda>ps us path. path \<in> set ps" and relative = "\<lambda>from to. to"
          and cachedIgnores = "[''/old'' \<mapsto> \<lparr> ignores = [''**/stale''], unignores = [] \<rparr>]"]
      disabled_ignore_and_cache_reset
        [where opts = "\<lparr> gitignore = True, cwd = ''/repo'' \<rparr>"
          and findAndParseGitignores = "\<lambda>c. (\<lparr> ignores = [''**/dist''], unignores = [],
                 gitignoreFiles = [''.gitignore''] \<rparr>,
                 [(''/repo'', \<lparr> ignores = [''**/dist''], unignores = [] \<rparr>)])"
          and picomatch = "\<lambda>ps us path. path \<in> set ps" and relative = "\<lambda>from to. to"
          and cachedIgnores = "[''/old'' \<mapsto> \<lparr> ignores = [''**/stale''], unignores = [] \<rparr>]"
          and d = "''/old''"]
      h
    by blast
qed

section \<open>Properties of the store operations\<close>

lemma fold_preserves:
  assumes "\<And>x s. g (f x s) = g s"
  shows "g (fold f xs s) = g s"
  by (induction xs arbitrary: s) (simp_all add: assms)


lemma insert_all_Nil [simp]: "insert_all ys [] = ys"
  by (simp add: insert_all_def)

lemma insert_all_Cons:
  "insert_all ys (x # xs) = insert_all (if x \<in> set ys then ys else ys @ [x]) xs"
  by (simp add: insert_all_def)


lemma update_absent: "map_of al k = None \<Longrightarrow> AList.update k v al = al @ [(k, v)]"
  by (induction al) (auto split: if_splits)

lemma fold_set_add:
  "fold (set_add s) xs h = h\<lparr>sets := (sets h)(s := insert_all (sets h s) xs)\<rparr>"
  by (induction xs arbitrary: h) (simp_all add: set_add_def insert_all_Cons)

lemma fold_set_add_get:
  assumes "map_of (idmaps h m) k = Some s"
  shows "fold (\<lambda>v h. case map_of (idmaps h m) k of Some s \<Rightarrow> set_add s v h | None \<Rightarrow> h) xs h =
         h\<lparr>sets := (sets h)(s := insert_all (sets h s) xs)\<rparr>"
  using assms
  by (induction xs arbitrary: h) (simp_all add: set_add_def insert_all_Cons)

lemma addValues_eq:
  "addValues m k v h =
     (case map_of (idmaps h m) k of
        Some s \<Rightarrow> h\<lparr>sets := (sets h)(s := insert_all (sets h s) (sets h v))\<rparr>
      | None \<Rightarrow> h\<lparr>idmaps := (idmaps h)(m := idmaps h m @ [(k, v)])\<rparr>)"
  by (auto simp: addValues_def fold_set_add_get update_absent split: option.splits)

lemma fold_addValues_get:
  assumes "map_of (nsmaps h m) k = Some inner"
  shows "fold (\<lambda>(ns, v) h. case map_of (nsmaps h m) k of
                              Some inner \<Rightarrow> addValues inner ns v h | None \<Rightarrow> h) es h =
         fold (\<lambda>(ns, v). addValues inner ns v) es h"
  using assms
  by (induction es arbitrary: h) (auto simp: addValues_eq split: option.splits)

lemma addNsValues_eq:
  "addNsValues m k v h =
     (case map_of (nsmaps h m) k of
        Some inner \<Rightarrow> fold (\<lambda>(ns, v). addValues inner ns v) (idmaps h v) h
      | None \<Rightarrow> h\<lparr>nsmaps := (nsmaps h)(m := nsmaps h m @ [(k, v)])\<rparr>)"
  by (auto simp: addNsValues_def fold_addValues_get update_absent split: option.splits)

lemma graph_side_addValues [simp]: "graph_side (addValues m k v h) = graph_side h"
  by (simp add: addValues_eq graph_side_def split: option.splits)

lemma graph_side_fold_addValues [simp]:
  "graph_side (fold (\<lambda>(k, v). addValues m k v) es h) = graph_side h"
  by (rule fold_preserves) (simp split: prod.splits)

lemma graph_side_addNsValues [simp]: "graph_side (addNsValues m k v h) = graph_side h"
  by (simp add: addNsValues_eq split: option.splits) (simp add: graph_side_def)

lemma graph_side_fold_addNsValues [simp]:
  "graph_side (fold (\<lambda>(k, v). addNsValues m k v) es h) = graph_side h"
  by (rule fold_preserves) (simp split: prod.splits)

lemma graph_side_fold_set_add [simp]: "graph_side (fold (set_add s) xs h) = graph_side h"
  by (simp add: fold_set_add graph_side_def)

lemma graph_side_updateImportDetails [simp]:
  "graph_side (updateImportDetails t i h) = graph_side h"
  by (simp add: updateImportDetails_def Let_def)

lemma updateImportDetails_frame [simp]:
  "detailmaps (updateImportDetails t i h) = detailmaps h"
  "exportmaps (updateImportDetails t i h) = exportmaps h"
  "nodes (updateImportDetails t i h) = nodes h"
  "graphs (updateImportDetails t i h) = graphs h"
  "fresh (updateImportDetails t i h) = fresh h"
  using graph_side_updateImportDetails [of t i h] by (simp_all add: graph_side_def)

lemma createFileNode_fst: "fst (createFileNode h) = fresh h + 7"
  by (simp add: createFileNode_def new_detailmap_def new_set_def new_exportmap_def new_node_def)

lemma createFileNode_frame:
  "graphs (snd (createFileNode h)) = graphs h"
  "idmaps (snd (createFileNode h)) = idmaps h"
  "nsmaps (snd (createFileNode h)) = nsmaps h"
  "fresh (snd (createFileNode h)) = fresh h + 8"
  "n < fresh h \<Longrightarrow> nodes (snd (createFileNode h)) n = nodes h n"
  "n < fresh h \<Longrightarrow> detailmaps (snd (createFileNode h)) n = detailmaps h n"
  "n < fresh h \<Longrightarrow> exportmaps (snd (createFileNode h)) n = exportmaps h n"
  "n < fresh h \<Longrightarrow> sets (snd (createFileNode h)) n = sets h n"
  "node_imported (nodes (snd (createFileNode h)) (fresh h + 7)) = None"
  by (simp_all add: createFileNode_def new_detailmap_def new_set_def new_exportmap_def new_node_def)

lemmas entry_simps = updateImportMap_entry_def getOrCreateFileNode_def Let_def case_prod_beta
  createFileNode_fst createFileNode_frame

lemma entry_graphs:
  "graphs (updateImportMap_entry f g e h) =
     (graphs h)(g := AList.update (fst e) (target_node g (fst e) h) (graphs h g))"
  by (simp add: entry_simps target_node_def split: option.splits)

lemma entry_fresh: "fresh h \<le> fresh (updateImportMap_entry f g e h)"
  by (simp add: entry_simps split: option.splits)

lemma entry_idmaps_alloc:
  "fresh (updateImportMap_entry f g e h) =
     (if map_of (graphs h g) (fst e) = None then fresh h + 8 else fresh h)"
  by (simp add: entry_simps split: option.splits)

lemma entry_nodes:
  assumes "n < fresh h"
  shows "node_frame (nodes (updateImportMap_entry f g e h) n) (nodes h n)"
  using assms by (simp add: entry_simps node_frame_def split: option.splits)

lemma entry_nodes_other:
  assumes "n < fresh h" "map_of (graphs h g) (fst e) \<noteq> Some n"
  shows "nodes (updateImportMap_entry f g e h) n = nodes h n"
  using assms by (auto simp add: entry_simps split: option.splits)

lemma entry_exportmaps:
  assumes "a < fresh h"
  shows "exportmaps (updateImportMap_entry f g e h) a = exportmaps h a"
  using assms by (simp add: entry_simps split: option.splits)

lemma entry_detailmaps_other:
  assumes "m < fresh h" "m \<noteq> imports_internal (nodes h f)"
  shows "detailmaps (updateImportMap_entry f g e h) m = detailmaps h m"
  using assms by (simp add: entry_simps split: option.splits)

lemma entry_detailmaps_internal:
  assumes "imports_internal (nodes h f) < fresh h"
  shows "detailmaps (updateImportMap_entry f g e h) (imports_internal (nodes h f)) =
         (if map_of (detailmaps h (imports_internal (nodes h f))) (fst e) = None
          then detailmaps h (imports_internal (nodes h f)) @ [e]
          else detailmaps h (imports_internal (nodes h f)))"
  using assms by (simp add: entry_simps update_absent split: option.splits)

lemma updateImportMap_Cons:
  "updateImportMap f (e # es) g h = updateImportMap f es g (updateImportMap_entry f g e h)"
  by (simp add: updateImportMap_def)

lemma updateImportMap_Nil [simp]: "updateImportMap f [] g h = h"
  by (simp add: updateImportMap_def)

lemma updateImportMap_fresh: "fresh h \<le> fresh (updateImportMap f im g h)"
proof (induction im arbitrary: h)
  case Nil
  show ?case by simp
next
  case (Cons e es)
  show ?case
    using Cons [of "updateImportMap_entry f g e h"] entry_fresh [of h f g e]
    by (simp add: updateImportMap_Cons)
qed

lemma updateImportMap_graph_keys:
  "fst ` set (graphs (updateImportMap f im g h) g) = fst ` set (graphs h g) \<union> fst ` set im"
proof (induction im arbitrary: h)
  case Nil
  show ?case by simp
next
  case (Cons e es)
  show ?case
    by (simp add: updateImportMap_Cons Cons entry_graphs dom_update [of "fst e" _ "graphs h g", simplified dom_map_of_conv_image_fst] Un_commute insert_commute)
qed

lemma updateImportMap_graph_other:
  "g' \<noteq> g \<Longrightarrow> graphs (updateImportMap f im g h) g' = graphs h g'"
  by (induction im arbitrary: h) (simp_all add: updateImportMap_Cons entry_graphs)

lemma updateImportMap_graph_frame:
  "k \<notin> fst ` set im \<Longrightarrow> map_of (graphs (updateImportMap f im g h) g) k = map_of (graphs h g) k"
  by (induction im arbitrary: h) (auto simp add: updateImportMap_Cons entry_graphs update_conv')

lemma updateImportMap_nodes:
  assumes "n < fresh h"
  shows "node_frame (nodes (updateImportMap f im g h) n) (nodes h n)"
  using assms
proof (induction im arbitrary: h)
  case Nil
  show ?case by (simp add: node_frame_def)
next
  case (Cons e es)
  have lt: "n < fresh (updateImportMap_entry f g e h)"
    using Cons.prems entry_fresh [of h f g e] by simp
  show ?case
    using Cons.IH [OF lt] entry_nodes [OF Cons.prems, of f g e]
    by (simp add: updateImportMap_Cons node_frame_def)
qed

lemma updateImportMap_nodes_other:
  assumes "n < fresh h" "\<forall>k\<in>fst ` set im. map_of (graphs h g) k \<noteq> Some n"
  shows "nodes (updateImportMap f im g h) n = nodes h n"
  using assms
proof (induction im arbitrary: h)
  case Nil
  show ?case by simp
next
  case (Cons e es)
  let ?h1 = "updateImportMap_entry f g e h"
  have lt: "n < fresh ?h1"
    using Cons.prems entry_fresh [of h f g e] by simp
  have tn: "target_node g (fst e) h \<noteq> n"
    using Cons.prems by (auto simp: target_node_def split: option.splits)
  have inv: "\<forall>k\<in>fst ` set es. map_of (graphs ?h1 g) k \<noteq> Some n"
    using Cons.prems(2) tn by (auto simp: entry_graphs update_conv')
  have "nodes ?h1 n = nodes h n"
    using Cons.prems by (intro entry_nodes_other) auto
  then show ?case
    using Cons.IH [OF lt inv] by (simp add: updateImportMap_Cons)
qed

lemma updateImportMap_exportmaps:
  assumes "a < fresh h"
  shows "exportmaps (updateImportMap f im g h) a = exportmaps h a"
  using assms
proof (induction im arbitrary: h)
  case Nil
  show ?case by simp
next
  case (Cons e es)
  have lt: "a < fresh (updateImportMap_entry f g e h)"
    using Cons.prems entry_fresh [of h f g e] by simp
  show ?case
    using Cons.IH [OF lt] entry_exportmaps [OF Cons.prems, of f g e]
    by (simp add: updateImportMap_Cons)
qed

lemma entry_internal_const:
  assumes "f < fresh h"
  shows "imports_internal (nodes (updateImportMap_entry f g e h) f) = imports_internal (nodes h f)"
  using entry_nodes [OF assms, of f g e] by (simp add: node_frame_def)

lemma updateImportMap_detailmaps_other:
  assumes "m < fresh h" "f < fresh h" "m \<noteq> imports_internal (nodes h f)"
  shows "detailmaps (updateImportMap f im g h) m = detailmaps h m"
  using assms
proof (induction im arbitrary: h)
  case Nil
  show ?case by simp
next
  case (Cons e es)
  let ?h1 = "updateImportMap_entry f g e h"
  have lt: "m < fresh ?h1" "f < fresh ?h1"
    using Cons.prems entry_fresh [of h f g e] by simp_all
  have ne: "m \<noteq> imports_internal (nodes ?h1 f)"
    using Cons.prems by (simp add: entry_internal_const)
  show ?case
    using Cons.IH [OF lt ne] entry_detailmaps_other [of m h f g e] Cons.prems
    by (simp add: updateImportMap_Cons)
qed

lemma updateImportMap_detailmaps_internal:
  assumes "f < fresh h" "imports_internal (nodes h f) < fresh h"
  shows "map_of (detailmaps (updateImportMap f im g h) (imports_internal (nodes h f))) k =
         (case map_of (detailmaps h (imports_internal (nodes h f))) k of
            Some d \<Rightarrow> Some d
          | None \<Rightarrow> map_of im k)"
  using assms
proof (induction im arbitrary: h)
  case Nil
  show ?case by (simp split: option.splits)
next
  case (Cons e es)
  let ?h1 = "updateImportMap_entry f g e h"
  let ?i = "imports_internal (nodes h f)"
  have lt: "f < fresh ?h1"
    using Cons.prems entry_fresh [of h f g e] by simp
  have i1: "imports_internal (nodes ?h1 f) = ?i"
    using Cons.prems by (simp add: entry_internal_const)
  have lt2: "imports_internal (nodes ?h1 f) < fresh ?h1"
    using Cons.prems entry_fresh [of h f g e] i1 by simp
  have IH': "map_of (detailmaps (updateImportMap f es g ?h1) ?i) k =
      (case map_of (detailmaps ?h1 ?i) k of Some d \<Rightarrow> Some d | None \<Rightarrow> map_of es k)"
    using Cons.IH [OF lt lt2] unfolding i1 .
  have step: "detailmaps ?h1 ?i =
      (if map_of (detailmaps h ?i) (fst e) = None then detailmaps h ?i @ [e] else detailmaps h ?i)"
    by (rule entry_detailmaps_internal [OF Cons.prems(2)])
  show ?case
    unfolding updateImportMap_Cons IH' step
    by (cases e) (auto split: option.splits)
qed

lemma updateImportMap_graph_retained:
  "map_of (graphs h g) k = Some n \<Longrightarrow> map_of (graphs (updateImportMap f im g h) g) k = Some n"
proof (induction im arbitrary: h)
  case Nil
  then show ?case by simp
next
  case (Cons e es)
  have "map_of (graphs (updateImportMap_entry f g e h) g) k = Some n"
    using Cons.prems by (auto simp add: entry_graphs update_conv' target_node_def)
  then show ?case
    by (simp add: updateImportMap_Cons Cons.IH)
qed

lemma updateImportMap_graph_created:
  assumes "k \<in> fst ` set im" "map_of (graphs h g) k = None"
  shows "\<exists>n\<ge>fresh h. map_of (graphs (updateImportMap f im g h) g) k = Some n"
  using assms
proof (induction im arbitrary: h)
  case Nil
  then show ?case by simp
next
  case (Cons e es)
  let ?h1 = "updateImportMap_entry f g e h"
  show ?case
  proof (cases "fst e = k")
    case True
    have "map_of (graphs ?h1 g) k = Some (fresh h + 7)"
      using True Cons.prems(2) by (simp add: entry_graphs update_conv' target_node_def)
    then have "map_of (graphs (updateImportMap f es g ?h1) g) k = Some (fresh h + 7)"
      by (rule updateImportMap_graph_retained)
    then show ?thesis
      by (auto simp: updateImportMap_Cons)
  next
    case False
    have k: "k \<in> fst ` set es"
      using False Cons.prems(1) by auto
    have "map_of (graphs ?h1 g) k = None"
      using False Cons.prems(2) by (simp add: entry_graphs update_conv')
    from Cons.IH [OF k this] obtain n where
      "n \<ge> fresh ?h1" "map_of (graphs (updateImportMap f es g ?h1) g) k = Some n"
      by blast
    then show ?thesis
      using entry_fresh [of h f g e] by (auto simp: updateImportMap_Cons intro: order_trans)
  qed
qed

lemma fold_invariant:
  assumes "P s" "\<And>x s. x \<in> set xs \<Longrightarrow> P s \<Longrightarrow> P (f x s)"
  shows "P (fold f xs s)"
  using assms by (induction xs arbitrary: s) auto

lemmas heap_defs = new_set_def new_idmap_def new_nsmap_def new_detailmap_def new_exportmap_def
  new_node_def new_graph_def set_add_def createFileNode_def createImports_def addValue_def
  addNsValue_def addValues_def addNsValues_def updateImportDetails_def getOrCreateFileNode_def
  updateImportMap_entry_def updateImportMap_def empty_heap_def three_files_def analyse_def
  analyse_all_def

lemmas observe_defs = observe_def internal_entries_def imported_entries_def details_entries_def
  idmap_entries_def nsmap_entries_def set_content_def

lemma scenario_addresses:
  "sc_graph (three_files a b c x) = 0" "node_a (three_files a b c x) = 8"
  "node_b (three_files a b c x) = 16" "node_c (three_files a b c x) = 24"
  by (simp_all add: heap_defs Let_def cong: prod.case_cong_weak option.case_cong_weak)

lemma observe_ab:
  assumes "a \<noteq> b" "a \<noteq> c" "b \<noteq> c"
  shows "observe (three_files a b c x) (analyse_all a b c x [File_a, File_b]) =
     ([(a, 8), (b, 16), (c, 24)],
      [(c, ({}, [(x, {a, b})], [], [], [], [], []))],
      [(c, ({}, [(x, {b})], [], [], [], [], []))],
      [],
      None, None, Some ({}, [(x, {a, b})], [], [], [], [], []))"
  using assms
  by (simp add: heap_defs observe_defs Let_def insert_commute
      cong: prod.case_cong_weak option.case_cong_weak)

lemma observe_ba:
  assumes "a \<noteq> b" "a \<noteq> c" "b \<noteq> c"
  shows "observe (three_files a b c x) (analyse_all a b c x [File_b, File_a]) =
     ([(a, 8), (b, 16), (c, 24)],
      [(c, ({}, [(x, {a})], [], [], [], [], []))],
      [(c, ({}, [(x, {a, b})], [], [], [], [], []))],
      [],
      None, None, Some ({}, [(x, {a, b})], [], [], [], [], []))"
  using assms
  by (simp add: heap_defs observe_defs Let_def insert_commute
      cong: prod.case_cong_weak option.case_cong_weak)

lemma observe_a:
  assumes "a \<noteq> b" "a \<noteq> c" "b \<noteq> c"
  shows "observe (three_files a b c x) (analyse_all a b c x [File_a]) =
     ([(a, 8), (b, 16), (c, 24)],
      [(c, ({}, [(x, {a})], [], [], [], [], []))],
      [],
      [],
      None, None, Some ({}, [(x, {a})], [], [], [], [], []))"
  using assms
  by (simp add: heap_defs observe_defs Let_def insert_commute
      cong: prod.case_cong_weak option.case_cong_weak)

lemma idmap_content_entries: "idmap_content h m = map_of (idmap_entries h m)"
  by (auto simp: idmap_content_def idmap_entries_def map_of_map fun_eq_iff)

lemma nsmap_content_entries:
  "nsmap_content h m = map_of (map (\<lambda>(k, es). (k, map_of es)) (nsmap_entries h m))"
proof -
  have "map (\<lambda>(k, es). (k, map_of es)) (nsmap_entries h m) =
        map (\<lambda>(k, i). (k, idmap_content h i)) (nsmaps h m)"
    by (simp add: nsmap_entries_def idmap_content_entries case_prod_beta)
  then show ?thesis
    by (auto simp: nsmap_content_def map_of_map fun_eq_iff)
qed

lemma content_entries: "content h d = entries_content (details_entries h d)"
  by (simp add: content_def entries_content_def details_entries_def idmap_content_entries
      nsmap_content_entries)

lemma content_entries_fun: "content h = (\<lambda>d. entries_content (details_entries h d))"
  by (simp add: fun_eq_iff content_entries)

lemma internal_content_entries:
  "internal_content h n p = map_option entries_content (map_of (internal_entries h n) p)"
  by (simp add: internal_content_def internal_entries_def content_entries_fun map_of_map
      option.map_comp comp_def)

lemma imported_content_entries:
  "imported_content h n = map_option entries_content (imported_entries h n)"
  by (simp add: imported_content_def imported_entries_def content_entries_fun option.map_comp
      comp_def)

lemma analyse_all_file_c:
  "analyse_all a b c x (os @ [File_c]) = analyse_all a b c x os"
  "analyse_all a b c x (File_c # os) = analyse_all a b c x os"
  by (simp_all add: analyse_all_def analyse_def Let_def)

lemma observe_fields:
  assumes "observe sc h = (g, ia, ib, ic, ma, mb, mc)"
  shows "graphs h (sc_graph sc) = g"
    "internal_entries h (node_a sc) = ia" "internal_entries h (node_b sc) = ib"
    "internal_entries h (node_c sc) = ic"
    "imported_entries h (node_a sc) = ma" "imported_entries h (node_b sc) = mb"
    "imported_entries h (node_c sc) = mc"
  using assms by (simp_all add: observe_def)

lemma analyse_file_c: "analyse c sc File_c h = h"
  by (simp add: analyse_def updateImportMap_def)

lemma analyse_all_without_c:
  "analyse_all a b c x ord = analyse_all a b c x (filter (\<lambda>f. f \<noteq> File_c) ord)"
proof -
  have "fold (analyse c sc) ord h = fold (analyse c sc) (filter (\<lambda>f. f \<noteq> File_c) ord) h"
    for sc h
    by (induction ord arbitrary: h) (simp_all add: analyse_file_c)
  then show ?thesis
    by (simp add: analyse_all_def Let_def)
qed

lemma two_distinct:
  assumes "distinct xs" "set xs = {x, y}" "x \<noteq> y"
  shows "xs = [x, y] \<or> xs = [y, x]"
proof -
  have "length xs = 2"
    using distinct_card [OF assms(1)] assms(2,3) by simp
  then obtain u v where xs: "xs = [u, v]"
    by (cases xs; cases "tl xs"; cases "tl (tl xs)") auto
  show ?thesis
    using assms unfolding xs by (auto simp: doubleton_eq_iff)
qed

lemma orders_without_c:
  assumes "ord \<in> orders"
  shows "filter (\<lambda>f. f \<noteq> File_c) ord = [File_a, File_b]
       \<or> filter (\<lambda>f. f \<noteq> File_c) ord = [File_b, File_a]"
proof (rule two_distinct)
  show "distinct (filter (\<lambda>f. f \<noteq> File_c) ord)"
    using assms by (simp add: orders_def)
  show "set (filter (\<lambda>f. f \<noteq> File_c) ord) = {File_a, File_b}"
    using assms by (auto simp: orders_def)
  show "File_a \<noteq> File_b"
    by simp
qed

lemma three_files_order:
  assumes d: "a \<noteq> b" "a \<noteq> c" "b \<noteq> c" and o: "ord \<in> orders"
  shows "graphs (analyse_all a b c x ord) (sc_graph (three_files a b c x)) =
           [(a, node_a (three_files a b c x)), (b, node_b (three_files a b c x)),
            (c, node_c (three_files a b c x))]"
    and "imported_content (analyse_all a b c x ord) (node_c (three_files a b c x)) =
           Some (both_import a b x)"
    and "imported_content (analyse_all a b c x ord) (node_a (three_files a b c x)) = None"
    and "imported_content (analyse_all a b c x ord) (node_b (three_files a b c x)) = None"
    and "\<exists>D s. internal_content (analyse_all a b c x ord) (node_a (three_files a b c x)) c = Some D
           \<and> c_imported D x = Some s \<and> a \<in> s"
    and "\<exists>D s. internal_content (analyse_all a b c x ord) (node_b (three_files a b c x)) c = Some D
           \<and> c_imported D x = Some s \<and> b \<in> s"
    and "map fst (internal_entries (analyse_all a b c x ord) (node_a (three_files a b c x))) = [c]"
    and "map fst (internal_entries (analyse_all a b c x ord) (node_b (three_files a b c x))) = [c]"
    and "internal_entries (analyse_all a b c x ord) (node_c (three_files a b c x)) = []"
proof -
  have "analyse_all a b c x ord = analyse_all a b c x [File_a, File_b]
      \<or> analyse_all a b c x ord = analyse_all a b c x [File_b, File_a]"
    using orders_without_c [OF o] analyse_all_without_c [of a b c x ord] by auto
  then have "(graphs (analyse_all a b c x ord) (sc_graph (three_files a b c x)) =
           [(a, node_a (three_files a b c x)), (b, node_b (three_files a b c x)),
            (c, node_c (three_files a b c x))])
    \<and> (imported_content (analyse_all a b c x ord) (node_c (three_files a b c x)) =
           Some (both_import a b x))
    \<and> (imported_content (analyse_all a b c x ord) (node_a (three_files a b c x)) = None)
    \<and> (imported_content (analyse_all a b c x ord) (node_b (three_files a b c x)) = None)
    \<and> (\<exists>D s. internal_content (analyse_all a b c x ord) (node_a (three_files a b c x)) c = Some D
           \<and> c_imported D x = Some s \<and> a \<in> s)
    \<and> (\<exists>D s. internal_content (analyse_all a b c x ord) (node_b (three_files a b c x)) c = Some D
           \<and> c_imported D x = Some s \<and> b \<in> s)
    \<and> map fst (internal_entries (analyse_all a b c x ord) (node_a (three_files a b c x))) = [c]
    \<and> map fst (internal_entries (analyse_all a b c x ord) (node_b (three_files a b c x))) = [c]
    \<and> internal_entries (analyse_all a b c x ord) (node_c (three_files a b c x)) = []"
  proof
    assume e: "analyse_all a b c x ord = analyse_all a b c x [File_a, File_b]"
    show ?thesis
      unfolding e
      using observe_fields [OF observe_ab [OF d, of x]]
      by (simp add: internal_content_entries imported_content_entries entries_content_def
          both_import_def scenario_addresses)
  next
    assume e: "analyse_all a b c x ord = analyse_all a b c x [File_b, File_a]"
    show ?thesis
      unfolding e
      using observe_fields [OF observe_ba [OF d, of x]]
      by (simp add: internal_content_entries imported_content_entries entries_content_def
          both_import_def scenario_addresses)
  qed
  then show
    "graphs (analyse_all a b c x ord) (sc_graph (three_files a b c x)) =
           [(a, node_a (three_files a b c x)), (b, node_b (three_files a b c x)),
            (c, node_c (three_files a b c x))]"
    "imported_content (analyse_all a b c x ord) (node_c (three_files a b c x)) =
           Some (both_import a b x)"
    "imported_content (analyse_all a b c x ord) (node_a (three_files a b c x)) = None"
    "imported_content (analyse_all a b c x ord) (node_b (three_files a b c x)) = None"
    "\<exists>D s. internal_content (analyse_all a b c x ord) (node_a (three_files a b c x)) c = Some D
           \<and> c_imported D x = Some s \<and> a \<in> s"
    "\<exists>D s. internal_content (analyse_all a b c x ord) (node_b (three_files a b c x)) c = Some D
           \<and> c_imported D x = Some s \<and> b \<in> s"
    "map fst (internal_entries (analyse_all a b c x ord) (node_a (three_files a b c x))) = [c]"
    "map fst (internal_entries (analyse_all a b c x ord) (node_b (three_files a b c x))) = [c]"
    "internal_entries (analyse_all a b c x ord) (node_c (three_files a b c x)) = []"
    by blast+
qed

lemma internal_content_a_ab:
  assumes d: "a \<noteq> b" "a \<noteq> c" "b \<noteq> c"
  shows "\<exists>D. internal_content (analyse_all a b c x [File_a, File_b]) (node_a (three_files a b c x)) c = Some D
      \<and> c_imported D x = Some {a, b}"
    and "\<exists>D. internal_content (analyse_all a b c x [File_b, File_a]) (node_a (three_files a b c x)) c = Some D
      \<and> c_imported D x = Some {a}"
    and "\<exists>D. internal_content (analyse_all a b c x [File_a]) (node_a (three_files a b c x)) c = Some D
      \<and> c_imported D x = Some {a}"
  using observe_fields(2) [OF observe_ab [OF d, of x]] observe_fields(2) [OF observe_ba [OF d, of x]]
    observe_fields(2) [OF observe_a [OF d, of x]]
  by (simp_all add: internal_content_entries entries_content_def scenario_addresses)

section \<open>Properties of merging import details\<close>

lemma map_of_append_case:
  "map_of (xs @ ys) k = (case map_of xs k of None \<Rightarrow> map_of ys k | Some v \<Rightarrow> Some v)"
  by (simp add: map_add_def)

lemma map_of_absent: "map_of (absent al es) k = (if map_of al k = None then map_of es k else None)"
  by (induction es) (auto simp: absent_def)

lemma absent_snoc:
  "absent al (es @ [(k, v)]) = (if map_of al k = None then absent al es @ [(k, v)] else absent al es)"
  by (simp add: absent_def)

lemma absent_Nil [simp]: "absent al [] = []"
  by (simp add: absent_def)

lemma set_absent_subset: "set (absent al es) \<subseteq> set es"
  by (auto simp: absent_def)


lemma map_of_append_absent:
  assumes "k \<notin> fst ` set es"
  shows "map_of (al @ absent al es) k = map_of al k"
proof -
  have "map_of es k = None"
    using assms by (simp add: map_of_eq_None_iff)
  then show ?thesis
    by (simp add: map_add_def map_of_absent split: option.splits)
qed

lemma merge_idmap_Nil [simp]: "merge_idmap m [] h = h"
  by (simp add: merge_idmap_def)

lemma merge_idmap_snoc:
  "merge_idmap m (es @ [(k, v)]) h = addValues m k v (merge_idmap m es h)"
  by (simp add: merge_idmap_def)

lemma merge_idmap_nsmaps [simp]: "nsmaps (merge_idmap m es h) = nsmaps h"
  unfolding merge_idmap_def
  by (rule fold_preserves) (simp add: addValues_eq split: prod.splits option.splits)

lemma merge_idmap_graph_side [simp]: "graph_side (merge_idmap m es h) = graph_side h"
  by (simp add: merge_idmap_def)

lemma merge_idmap_idmaps:
  assumes "distinct (map fst es)"
  shows "idmaps (merge_idmap m es h) = (idmaps h)(m := idmaps h m @ absent (idmaps h m) es)"
  using assms
proof (induction es rule: rev_induct)
  case Nil
  show ?case by simp
next
  case (snoc e es)
  obtain k v where e: "e = (k, v)" by (cases e)
  have k: "k \<notin> fst ` set es" and d: "distinct (map fst es)"
    using snoc.prems e by auto
  have IH: "idmaps (merge_idmap m es h) = (idmaps h)(m := idmaps h m @ absent (idmaps h m) es)"
    using snoc.IH [OF d] .
  have look: "map_of (idmaps (merge_idmap m es h) m) k = map_of (idmaps h m) k"
    using k by (simp add: IH map_of_append_absent del: map_of_append)
  show ?case
    unfolding e merge_idmap_snoc addValues_eq look
    by (auto simp: IH absent_snoc fun_eq_iff split: option.splits)
qed


lemma merge_idmap_lookup:
  assumes "distinct (map fst es)" "map_of (idmaps h m) k = Some s"
  shows "map_of (idmaps (merge_idmap m es h) m) k = Some s"
  using assms by (simp add: merge_idmap_idmaps map_add_def split: option.splits)











lemma merge_nsmap_Nil [simp]: "merge_nsmap n [] h = h"
  by (simp add: merge_nsmap_def)


lemma addNsValues_merge:
  "addNsValues n k v h =
     (case map_of (nsmaps h n) k of
        Some inner \<Rightarrow> merge_idmap inner (idmaps h v) h
      | None \<Rightarrow> h\<lparr>nsmaps := (nsmaps h)(n := nsmaps h n @ [(k, v)])\<rparr>)"
  by (simp add: addNsValues_eq merge_idmap_def split: option.splits)

lemma merge_nsmap_graph_side [simp]: "graph_side (merge_nsmap n es h) = graph_side h"
  by (simp add: merge_nsmap_def)












section \<open>consequences of the shape\<close>

































lemma updateImportDetails_stages:
  "updateImportDetails t i h =
     (let h1 = fold (set_add (refs t)) (sets h (refs i)) h;
          h2 = merge_idmap (idroot Imported t) (idmaps h1 (idroot Imported i)) h1;
          h3 = merge_nsmap (nsroot ImportedAs t) (nsmaps h2 (nsroot ImportedAs i)) h2;
          h4 = merge_idmap (idroot ImportedNs t) (idmaps h3 (idroot ImportedNs i)) h3;
          h5 = merge_idmap (idroot ReExported t) (idmaps h4 (idroot ReExported i)) h4;
          h6 = merge_nsmap (nsroot ReExportedAs t) (nsmaps h5 (nsroot ReExportedAs i)) h5
      in merge_idmap (idroot ReExportedNs t) (idmaps h6 (idroot ReExportedNs i)) h6)"
  by (simp add: updateImportDetails_def merge_idmap_def merge_nsmap_def)





section \<open>what the merge leaves and what it makes\<close>
























section \<open>the laws of the union of contents\<close>



lemma union_with_idem:
  assumes "\<And>a. f a a = a"
  shows "union_with f x x = x"
  by (auto simp: union_with_def fun_eq_iff assms split: option.splits)



lemma content_union_idem: "content_union x x = x"
  by (simp add: content_union_def union_with_idem [of "(\<union>)"]
      union_with_idem [of "union_with (\<union>)"])

lemma grows_refl: "grows h h"
  by (simp add: grows_def)

lemma grows_trans: "grows h g \<Longrightarrow> grows g k \<Longrightarrow> grows h k"
  unfolding grows_def by (auto intro: prefix_order.trans)

lemma prefix_insert_all: "prefix ys (insert_all ys xs)"
proof (induction xs arbitrary: ys)
  case Nil
  show ?case by simp
next
  case (Cons x xs)
  have "prefix ys (if x \<in> set ys then ys else ys @ [x])"
    by simp
  then show ?case
    unfolding insert_all_Cons using Cons prefix_order.trans by blast
qed

lemma grows_sets_upd: "prefix (sets h s) xs \<Longrightarrow> grows h (h\<lparr>sets := (sets h)(s := xs)\<rparr>)"
  by (simp add: grows_def)

lemma grows_idmaps_upd: "grows h (h\<lparr>idmaps := (idmaps h)(m := idmaps h m @ es)\<rparr>)"
  by (simp add: grows_def)

lemma grows_nsmaps_upd: "grows h (h\<lparr>nsmaps := (nsmaps h)(m := nsmaps h m @ es)\<rparr>)"
  by (simp add: grows_def)

lemma grows_addValues: "grows h (addValues m k v h)"
  by (simp add: addValues_eq grows_sets_upd grows_idmaps_upd prefix_insert_all
      split: option.splits)

lemma grows_fold:
  assumes "\<And>x g. grows g (f x g)"
  shows "grows h (fold f xs h)"
proof (rule fold_invariant [where P = "grows h"])
  show "grows h h" by (rule grows_refl)
next
  fix x s assume "grows h s"
  then show "grows h (f x s)"
    using assms grows_trans by blast
qed

lemma grows_merge_idmap: "grows h (merge_idmap m es h)"
  unfolding merge_idmap_def by (rule grows_fold) (simp add: grows_addValues split: prod.splits)

lemma grows_addNsValues: "grows h (addNsValues n k v h)"
  by (simp add: addNsValues_merge grows_merge_idmap grows_nsmaps_upd split: option.splits)

lemma grows_merge_nsmap: "grows h (merge_nsmap n es h)"
  unfolding merge_nsmap_def by (rule grows_fold) (simp add: grows_addNsValues split: prod.splits)

lemma grows_fold_set_add: "grows h (fold (set_add s) xs h)"
  by (simp add: fold_set_add grows_sets_upd prefix_insert_all)

lemma grows_then_merge_idmap: "grows h g \<Longrightarrow> grows h (merge_idmap m es g)"
  using grows_merge_idmap grows_trans by blast

lemma grows_then_merge_nsmap: "grows h g \<Longrightarrow> grows h (merge_nsmap n es g)"
  using grows_merge_nsmap grows_trans by blast

lemma grows_updateImportDetails: "grows h (updateImportDetails t i h)"
  unfolding updateImportDetails_stages Let_def
  by (intro grows_then_merge_idmap grows_then_merge_nsmap grows_fold_set_add)

section \<open>merging import details into themselves\<close>






section \<open>the union laws\<close>



section \<open>the examples\<close>









section \<open>Properties of the frame of \<^verbatim>\<open>updateImportMap\<close>\<close>

lemma same_outside_refl: "same_outside N M R h h"
  by (simp add: same_outside_def)

lemma same_outside_trans:
  "same_outside N M R h g \<Longrightarrow> same_outside N M R g k \<Longrightarrow> same_outside N M R h k"
  by (simp add: same_outside_def)

lemma stays_refl: "closed h N M S \<Longrightarrow> stays N M S R h h"
  by (simp add: stays_def same_outside_refl)

lemma stays_step:
  assumes "stays N M S R h g" "closed g N M S \<Longrightarrow> stays N M S R g k"
  shows "stays N M S R h k"
  using assms by (auto simp: stays_def intro: same_outside_trans)

lemma stays_fold_set_add:
  assumes "closed h N M S" "s \<in> R"
  shows "stays N M S R h (fold (set_add s) xs h)"
  using assms by (simp add: stays_def fold_set_add closed_def same_outside_def)

lemma stays_addValues:
  assumes "closed h N M S" "m \<in> M" "v \<in> S" "S \<subseteq> R"
  shows "stays N M S R h (addValues m k v h)"
proof (cases "map_of (idmaps h m) k")
  case None
  then show ?thesis
    using assms by (auto simp: addValues_eq stays_def closed_def same_outside_def)
next
  case (Some s)
  have "s \<in> S"
    using assms(1,2) map_of_SomeD [OF Some] by (force simp: closed_def)
  then have "s \<in> R"
    using assms(4) by blast
  then show ?thesis
    using assms Some by (simp add: addValues_eq stays_def closed_def same_outside_def)
qed

lemma stays_merge_idmap:
  assumes "closed h N M S" "m \<in> M" "snd ` set es \<subseteq> S" "S \<subseteq> R"
  shows "stays N M S R h (merge_idmap m es h)"
  unfolding merge_idmap_def
proof (rule fold_invariant [where P = "stays N M S R h"])
  show "stays N M S R h h"
    using assms(1) by (rule stays_refl)
next
  fix x g
  assume x: "x \<in> set es" and g: "stays N M S R h g"
  obtain k v where kv: "x = (k, v)" by (cases x)
  have "v \<in> S"
    using x assms(3) unfolding kv by force
  then show "stays N M S R h ((case x of (k, v) \<Rightarrow> addValues m k v) g)"
    unfolding kv using g assms(2,4) by (auto intro: stays_step stays_addValues)
qed

lemma stays_addNsValues:
  assumes "closed h N M S" "n \<in> N" "v \<in> M" "S \<subseteq> R"
  shows "stays N M S R h (addNsValues n k v h)"
proof (cases "map_of (nsmaps h n) k")
  case None
  then show ?thesis
    using assms by (auto simp: addNsValues_eq stays_def closed_def same_outside_def)
next
  case (Some inner)
  have "inner \<in> M"
    using assms(1,2) map_of_SomeD [OF Some] by (force simp: closed_def)
  moreover have "snd ` set (idmaps h v) \<subseteq> S"
    using assms(1,3) by (simp add: closed_def)
  ultimately have "stays N M S R h (merge_idmap inner (idmaps h v) h)"
    using assms(1,4) by (intro stays_merge_idmap)
  then show ?thesis
    using Some by (simp add: addNsValues_eq merge_idmap_def)
qed

lemma stays_merge_nsmap:
  assumes "closed h N M S" "n \<in> N" "snd ` set es \<subseteq> M" "S \<subseteq> R"
  shows "stays N M S R h (merge_nsmap n es h)"
  unfolding merge_nsmap_def
proof (rule fold_invariant [where P = "stays N M S R h"])
  show "stays N M S R h h"
    using assms(1) by (rule stays_refl)
next
  fix x g
  assume x: "x \<in> set es" and g: "stays N M S R h g"
  obtain k v where kv: "x = (k, v)" by (cases x)
  have "v \<in> M"
    using x assms(3) unfolding kv by force
  then show "stays N M S R h ((case x of (k, v) \<Rightarrow> addNsValues n k v) g)"
    unfolding kv using g assms(2,4) by (auto intro: stays_step stays_addNsValues)
qed

lemma stays_then_merge_idmap:
  assumes "stays N M S R h g" "m \<in> M" "i \<in> M" "S \<subseteq> R"
  shows "stays N M S R h (merge_idmap m (idmaps g i) g)"
proof (rule stays_step [OF assms(1)])
  assume c: "closed g N M S"
  then have "snd ` set (idmaps g i) \<subseteq> S"
    using assms(3) by (simp add: closed_def)
  then show "stays N M S R g (merge_idmap m (idmaps g i) g)"
    using c assms(2,4) by (intro stays_merge_idmap)
qed

lemma stays_then_merge_nsmap:
  assumes "stays N M S R h g" "n \<in> N" "i \<in> N" "S \<subseteq> R"
  shows "stays N M S R h (merge_nsmap n (nsmaps g i) g)"
proof (rule stays_step [OF assms(1)])
  assume c: "closed g N M S"
  then have "snd ` set (nsmaps g i) \<subseteq> M"
    using assms(3) by (simp add: closed_def)
  then show "stays N M S R g (merge_nsmap n (nsmaps g i) g)"
    using c assms(2,4) by (intro stays_merge_nsmap)
qed

lemma stays_updateImportDetails:
  assumes "closed h N M S" "rooted t N M S" "rooted i N M S" "S \<subseteq> R"
  shows "stays N M S R h (updateImportDetails t i h)"
proof -
  have r: "refs t \<in> R" "idroot f t \<in> M" "idroot f i \<in> M" "nsroot f' t \<in> N" "nsroot f' i \<in> N"
    for f f'
    using assms(2,3,4) by (cases f; cases f'; auto simp add: rooted_def)+
  show ?thesis
    unfolding updateImportDetails_stages Let_def
    by (intro stays_then_merge_idmap stays_then_merge_nsmap stays_fold_set_add assms(1,4) r)
qed

lemma stays_other [simp]:
  "stays N M S R h (g\<lparr>detailmaps := x\<rparr>) = stays N M S R h g"
  "stays N M S R h (g\<lparr>nodes := y\<rparr>) = stays N M S R h g"
  "stays N M S R h (g\<lparr>graphs := z\<rparr>) = stays N M S R h g"
  by (simp_all add: stays_def closed_def same_outside_def)

lemma stays_createFileNode:
  assumes "closed h N M S" "{a. fresh h \<le> a} \<subseteq> R"
  shows "stays N M S R h (snd (createFileNode h))"
proof -
  have "sets (snd (createFileNode h)) a = sets h a" if "a \<notin> R" for a
  proof -
    have "a < fresh h"
      using that assms(2) by (auto simp: not_le [symmetric])
    then show ?thesis
      by (rule createFileNode_frame)
  qed
  then show ?thesis
    using assms(1) by (simp add: stays_def closed_def same_outside_def createFileNode_frame)
qed

lemma entry_imported:
  "node_imported (nodes (updateImportMap_entry f g e h) n) =
     (if n = target_node g (fst e) h
      then (case map_of (graphs h g) (fst e) of
              None \<Rightarrow> Some (snd e)
            | Some r \<Rightarrow> (case node_imported (nodes h n) of
                          None \<Rightarrow> Some (snd e)
                        | Some d \<Rightarrow> Some d))
      else node_imported (nodes h n))"
  by (auto simp: entry_simps target_node_def createFileNode_def new_detailmap_def new_set_def
      new_exportmap_def new_node_def split: option.splits)

lemma stays_entry:
  assumes c: "closed h N M S" and s: "{a. fresh h \<le> a} \<subseteq> R" and sr: "S \<subseteq> R"
    and r: "\<forall>d\<in>involved h f g [e]. rooted d N M S"
  shows "stays N M S R h (updateImportMap_entry f g e h)"
proof -
  obtain p d where e: "e = (p, d)" by (cases e)
  let ?i = "imports_internal (nodes h f)"
  define h1 where "h1 = (case map_of (detailmaps h ?i) p of
      None \<Rightarrow> h\<lparr>detailmaps := (detailmaps h)(?i := AList.update p d (detailmaps h ?i))\<rparr>
    | Some t \<Rightarrow> updateImportDetails t d h)"
  have rd: "rooted d N M S"
    using r by (simp add: involved_def e)
  have s1: "stays N M S R h h1"
  proof (cases "map_of (detailmaps h ?i) p")
    case None
    then show ?thesis
      using c by (simp add: h1_def stays_refl)
  next
    case (Some t)
    have "rooted t N M S"
      using r Some by (simp add: involved_def e)
    then show ?thesis
      using c rd sr Some by (simp add: h1_def stays_updateImportDetails)
  qed
  have f1: "fresh h1 = fresh h" "graphs h1 = graphs h" "nodes h1 = nodes h"
    by (simp_all add: h1_def split: option.splits)
  define n where "n = fst (getOrCreateFileNode g p h1)"
  define h2 where "h2 = snd (getOrCreateFileNode g p h1)"
  have s2: "stays N M S R h h2"
  proof (rule stays_step [OF s1])
    assume c1: "closed h1 N M S"
    show "stays N M S R h1 h2"
    proof (cases "map_of (graphs h g) p")
      case None
      then show ?thesis
        using stays_createFileNode [OF c1] s f1 by (simp add: h2_def getOrCreateFileNode_def)
    next
      case (Some r)
      then show ?thesis
        using c1 f1 by (simp add: h2_def getOrCreateFileNode_def stays_refl)
    qed
  qed
  define h3 where "h3 = (case node_imported (nodes h2 n) of
      None \<Rightarrow> h2\<lparr>nodes := (nodes h2)(n := (nodes h2 n)\<lparr>node_imported := Some d\<rparr>)\<rparr>
    | Some t \<Rightarrow> updateImportDetails t d h2)"
  have s3: "stays N M S R h h3"
  proof (cases "node_imported (nodes h2 n)")
    case None
    then show ?thesis
      using s2 by (simp add: h3_def)
  next
    case (Some t)
    have "map_of (graphs h g) p = Some n \<and> nodes h2 n = nodes h n"
    proof (cases "map_of (graphs h g) p")
      case None
      then have "node_imported (nodes h2 n) = None"
        using f1 createFileNode_frame(9) [of h1]
        by (simp add: h2_def n_def getOrCreateFileNode_def createFileNode_fst)
      then show ?thesis
        using Some by simp
    next
      case (Some r)
      then show ?thesis
        using f1 by (simp add: h2_def n_def getOrCreateFileNode_def)
    qed
    then have "rooted t N M S"
      using r Some by (auto simp: involved_def e)
    then have "closed h2 N M S \<Longrightarrow> stays N M S R h2 h3"
      using rd sr Some by (simp add: h3_def stays_updateImportDetails)
    then show ?thesis
      by (rule stays_step [OF s2])
  qed
  have "updateImportMap_entry f g e h =
      h3\<lparr>graphs := (graphs h3)(g := AList.update p n (graphs h3 g))\<rparr>"
    unfolding updateImportMap_entry_def Let_def case_prod_beta h3_def h2_def n_def h1_def e
      fst_conv snd_conv
    by (rule refl)
  then show ?thesis
    using s3 by simp
qed

lemma involved_entry:
  assumes "f < fresh h" "imports_internal (nodes h f) < fresh h"
  shows "involved (updateImportMap_entry f g e h) f g es \<subseteq> involved h f g (e # es)"
proof
  fix d
  let ?h1 = "updateImportMap_entry f g e h"
  let ?i = "imports_internal (nodes h f)"
  assume "d \<in> involved ?h1 f g es"
  then have "d \<in> snd ` set es
      \<or> (\<exists>k\<in>fst ` set es. map_of (detailmaps ?h1 ?i) k = Some d)
      \<or> (\<exists>k\<in>fst ` set es. \<exists>n. map_of (graphs ?h1 g) k = Some n \<and>
            node_imported (nodes ?h1 n) = Some d)"
    unfolding involved_def entry_internal_const [OF assms(1)] by blast
  then consider (v) "d \<in> snd ` set es"
    | (t) k where "k \<in> fst ` set es" "map_of (detailmaps ?h1 ?i) k = Some d"
    | (m) k n where "k \<in> fst ` set es" "map_of (graphs ?h1 g) k = Some n"
        "node_imported (nodes ?h1 n) = Some d"
    by blast
  then show "d \<in> involved h f g (e # es)"
  proof cases
    case v
    then show ?thesis by (auto simp: involved_def)
  next
    case t
    have "map_of (detailmaps h ?i) k = Some d \<or> d = snd e"
      using t(2) unfolding entry_detailmaps_internal [OF assms(2)]
      by (cases e) (auto simp: map_add_def split: if_splits option.splits)
    then show ?thesis
      using t(1) by (auto simp: involved_def)
  next
    case m
    show ?thesis
    proof (cases "n = target_node g (fst e) h")
      case False
      then have "map_of (graphs h g) k = Some n" "node_imported (nodes h n) = Some d"
        using m(2,3) by (auto simp: entry_graphs entry_imported update_conv' split: if_splits)
      then show ?thesis
        using m(1) by (auto simp: involved_def)
    next
      case True
      have "d = snd e \<or> (map_of (graphs h g) (fst e) = Some n \<and> node_imported (nodes h n) = Some d)"
        using m(3) True by (auto simp: entry_imported target_node_def split: option.splits)
      then show ?thesis
        by (auto simp: involved_def)
    qed
  qed
qed

lemma stays_updateImportMap:
  assumes "f < fresh h" "imports_internal (nodes h f) < fresh h"
    and "closed h N M S" "{a. fresh h \<le> a} \<subseteq> R" "S \<subseteq> R"
    and "\<forall>d\<in>involved h f g im. rooted d N M S"
  shows "stays N M S R h (updateImportMap f im g h)"
  using assms
proof (induction im arbitrary: h)
  case Nil
  then show ?case by (simp add: stays_refl)
next
  case (Cons e es)
  let ?h1 = "updateImportMap_entry f g e h"
  have sub: "involved h f g [e] \<subseteq> involved h f g (e # es)"
    by (auto simp: involved_def)
  have s1: "stays N M S R h ?h1"
    using Cons.prems(3,4,5,6) sub by (intro stays_entry) auto
  have lt: "f < fresh ?h1" "imports_internal (nodes ?h1 f) < fresh ?h1"
    "{a. fresh ?h1 \<le> a} \<subseteq> R"
    using Cons.prems(1,2,4) entry_fresh [of h f g e] entry_internal_const [of f h g e]
    by auto
  have r: "\<forall>d\<in>involved ?h1 f g es. rooted d N M S"
    using Cons.prems(6) involved_entry [OF Cons.prems(1,2), of g e es] by blast
  have "closed ?h1 N M S \<Longrightarrow> stays N M S R ?h1 (updateImportMap f es g ?h1)"
    using lt r Cons.prems(5) by (intro Cons.IH)
  then show ?case
    unfolding updateImportMap_Cons by (rule stays_step [OF s1])
qed

lemma extends_refl: "extends h h"
  by (simp add: extends_def)

lemma extends_trans: "extends h g \<Longrightarrow> extends g k \<Longrightarrow> extends h k"
  unfolding extends_def
  by (auto intro: prefix_order.trans order_trans dest: less_le_trans)

lemma extends_grows: "grows h g \<Longrightarrow> fresh g = fresh h \<Longrightarrow> extends h g"
  by (simp add: extends_def grows_def)

lemma extends_other [simp]:
  "extends h (g\<lparr>detailmaps := x\<rparr>) = extends h g"
  "extends h (g\<lparr>nodes := y\<rparr>) = extends h g"
  "extends h (g\<lparr>graphs := z\<rparr>) = extends h g"
  by (simp_all add: extends_def)

lemma extends_updateImportDetails: "extends h (updateImportDetails t i h)"
  by (rule extends_grows) (simp_all add: grows_updateImportDetails)

lemma extends_createFileNode: "extends h (snd (createFileNode h))"
  by (simp add: extends_def createFileNode_frame)

lemma extends_entry: "extends h (updateImportMap_entry f g e h)"
proof -
  obtain p d where e: "e = (p, d)" by (cases e)
  let ?i = "imports_internal (nodes h f)"
  define h1 where "h1 = (case map_of (detailmaps h ?i) p of
      None \<Rightarrow> h\<lparr>detailmaps := (detailmaps h)(?i := AList.update p d (detailmaps h ?i))\<rparr>
    | Some t \<Rightarrow> updateImportDetails t d h)"
  define n where "n = fst (getOrCreateFileNode g p h1)"
  define h2 where "h2 = snd (getOrCreateFileNode g p h1)"
  define h3 where "h3 = (case node_imported (nodes h2 n) of
      None \<Rightarrow> h2\<lparr>nodes := (nodes h2)(n := (nodes h2 n)\<lparr>node_imported := Some d\<rparr>)\<rparr>
    | Some t \<Rightarrow> updateImportDetails t d h2)"
  have "extends h h1"
    by (simp add: h1_def extends_refl extends_updateImportDetails split: option.splits)
  moreover have "extends h1 h2"
    by (simp add: h2_def getOrCreateFileNode_def extends_refl extends_createFileNode
        split: option.splits)
  moreover have "extends h2 h3"
    by (simp add: h3_def extends_refl extends_updateImportDetails split: option.splits)
  ultimately have "extends h h3"
    by (blast intro: extends_trans)
  moreover have "updateImportMap_entry f g e h =
      h3\<lparr>graphs := (graphs h3)(g := AList.update p n (graphs h3 g))\<rparr>"
    unfolding updateImportMap_entry_def Let_def case_prod_beta h3_def h2_def n_def h1_def e
      fst_conv snd_conv
    by (rule refl)
  ultimately show ?thesis
    by simp
qed

lemma extends_updateImportMap: "extends h (updateImportMap f im g h)"
proof (induction im arbitrary: h)
  case Nil
  show ?case by (simp add: extends_refl)
next
  case (Cons e es)
  show ?case
    unfolding updateImportMap_Cons
    using extends_entry Cons by (rule extends_trans)
qed

lemma entry_nodes_kept:
  assumes "n < fresh h" "node_imported (nodes h n) = Some d"
  shows "nodes (updateImportMap_entry f g e h) n = nodes h n"
  using assms by (auto simp: entry_simps split: option.splits)

lemma updateImportMap_nodes_kept:
  assumes "n < fresh h" "node_imported (nodes h n) = Some d"
  shows "nodes (updateImportMap f im g h) n = nodes h n"
  using assms
proof (induction im arbitrary: h)
  case Nil
  show ?case by simp
next
  case (Cons e es)
  let ?h1 = "updateImportMap_entry f g e h"
  have k: "nodes ?h1 n = nodes h n"
    using Cons.prems by (rule entry_nodes_kept)
  have "n < fresh ?h1"
    using Cons.prems(1) entry_fresh [of h f g e] by simp
  then have "nodes (updateImportMap f es g ?h1) n = nodes ?h1 n"
    using Cons.prems(2) k by (intro Cons.IH) simp_all
  then show ?case
    using k by (simp add: updateImportMap_Cons)
qed

lemma updateImportMap_region:
  assumes "f < fresh h" "imports_internal (nodes h f) < fresh h"
    and "closed h N M S" and "\<forall>d\<in>involved h f g im. rooted d N M S"
  shows "closed (updateImportMap f im g h) N M S"
    and "\<forall>a<fresh h. a \<notin> S \<longrightarrow> sets (updateImportMap f im g h) a = sets h a"
    and "\<forall>a. a \<notin> M \<longrightarrow> idmaps (updateImportMap f im g h) a = idmaps h a"
    and "\<forall>a. a \<notin> N \<longrightarrow> nsmaps (updateImportMap f im g h) a = nsmaps h a"
proof -
  have "stays N M S (S \<union> {a. fresh h \<le> a}) h (updateImportMap f im g h)"
    using assms by (intro stays_updateImportMap) auto
  then show "closed (updateImportMap f im g h) N M S"
    and "\<forall>a<fresh h. a \<notin> S \<longrightarrow> sets (updateImportMap f im g h) a = sets h a"
    and "\<forall>a. a \<notin> M \<longrightarrow> idmaps (updateImportMap f im g h) a = idmaps h a"
    and "\<forall>a. a \<notin> N \<longrightarrow> nsmaps (updateImportMap f im g h) a = nsmaps h a"
    by (auto simp: stays_def same_outside_def)
qed

lemma entry_created:
  assumes "map_of (graphs h g) (fst e) = None"
  shows "map_of (graphs (updateImportMap_entry f g e h) g) (fst e) = Some (fresh h + 7)"
    and "fresh (updateImportMap_entry f g e h) = fresh h + 8"
    and "nodes (updateImportMap_entry f g e h) (fresh h + 7) =
      \<lparr> imports_internal = fresh h, imports_external = fresh h + 1,
        imports_unresolved = fresh h + 2, exports = fresh h + 3, node_imported = Some (snd e),
        duplicates = fresh h + 4, scripts = fresh h + 5, traceRefs = fresh h + 6 \<rparr>"
    and "detailmaps (updateImportMap_entry f g e h) (fresh h) = []"
    and "exportmaps (updateImportMap_entry f g e h) (fresh h + 3) = []"
    and "sets (updateImportMap_entry f g e h) (fresh h + 1) = []"
    and "sets (updateImportMap_entry f g e h) (fresh h + 2) = []"
    and "sets (updateImportMap_entry f g e h) (fresh h + 4) = []"
    and "sets (updateImportMap_entry f g e h) (fresh h + 5) = []"
    and "sets (updateImportMap_entry f g e h) (fresh h + 6) = []"
  using assms
  by (simp_all add: updateImportMap_entry_def getOrCreateFileNode_def Let_def case_prod_beta
      createFileNode_def new_detailmap_def new_set_def new_exportmap_def new_node_def
      update_conv' split: option.splits)

lemma updateImportMap_created:
  assumes "f < fresh h" "imports_internal (nodes h f) < fresh h"
    and "closed h N M S" "S \<subseteq> {a. a < fresh h}"
    and "\<forall>d\<in>involved h f g im. rooted d N M S"
    and "t \<in> fst ` set im" "map_of (graphs h g) t = None"
  shows "\<exists>b. fresh h \<le> b \<and> b + 8 \<le> fresh (updateImportMap f im g h) \<and>
      map_of (graphs (updateImportMap f im g h) g) t = Some (b + 7) \<and>
      nodes (updateImportMap f im g h) (b + 7) =
        \<lparr> imports_internal = b, imports_external = b + 1, imports_unresolved = b + 2,
          exports = b + 3, node_imported = map_of im t, duplicates = b + 4, scripts = b + 5,
          traceRefs = b + 6 \<rparr> \<and>
      detailmaps (updateImportMap f im g h) b = [] \<and>
      exportmaps (updateImportMap f im g h) (b + 3) = [] \<and>
      (\<forall>a\<in>{b + 1, b + 2, b + 4, b + 5, b + 6}. sets (updateImportMap f im g h) a = [])"
  using assms
proof (induction im arbitrary: h)
  case Nil
  then show ?case by simp
next
  case (Cons e es)
  let ?h1 = "updateImportMap_entry f g e h"
  let ?h' = "updateImportMap f es g ?h1"
  have lt: "f < fresh ?h1" "imports_internal (nodes ?h1 f) < fresh ?h1"
    using Cons.prems(1,2) entry_fresh [of h f g e] entry_internal_const [of f h g e] by auto
  have sub: "involved h f g [e] \<subseteq> involved h f g (e # es)"
    by (auto simp: involved_def)
  have "stays N M S (S \<union> {a. fresh h \<le> a}) h ?h1"
    using Cons.prems(3,5) sub by (intro stays_entry) auto
  then have c1: "closed ?h1 N M S"
    by (simp add: stays_def)
  have s1: "S \<subseteq> {a. a < fresh ?h1}"
    using Cons.prems(4) entry_fresh [of h f g e] by auto
  have r1: "\<forall>d\<in>involved ?h1 f g es. rooted d N M S"
    using Cons.prems(5) involved_entry [OF Cons.prems(1,2), of g e es] by blast
  show ?case
  proof (cases "fst e = t")
    case True
    let ?b = "fresh h"
    note cr = entry_created [of h g e f, unfolded True, OF Cons.prems(7)]
    have n1: "?b + 7 < fresh ?h1"
      using cr(2) by simp
    have "nodes ?h' (?b + 7) = nodes ?h1 (?b + 7)"
      using n1 by (rule updateImportMap_nodes_kept) (simp add: cr(3))
    moreover have "map_of (graphs ?h' g) t = Some (?b + 7)"
      using cr(1) by (rule updateImportMap_graph_retained)
    moreover have "detailmaps ?h' ?b = detailmaps ?h1 ?b"
      using lt(1) Cons.prems(2) cr(2) entry_internal_const [OF Cons.prems(1), of g e]
      by (intro updateImportMap_detailmaps_other) simp_all
    moreover have "exportmaps ?h' (?b + 3) = exportmaps ?h1 (?b + 3)"
      using cr(2) by (intro updateImportMap_exportmaps) simp
    moreover have "sets ?h' a = sets ?h1 a" if "a \<in> {?b + 1, ?b + 2, ?b + 4, ?b + 5, ?b + 6}" for a
    proof -
      have "a < fresh ?h1" "a \<notin> S"
        using that cr(2) Cons.prems(4) by auto
      then show ?thesis
        using updateImportMap_region(2) [OF lt c1 r1] by simp
    qed
    moreover have "fresh ?h1 \<le> fresh ?h'"
      by (rule updateImportMap_fresh)
    moreover have "map_of (e # es) t = Some (snd e)"
      using True by (cases e) simp
    ultimately show ?thesis
      unfolding updateImportMap_Cons using cr(2-10)
      by (intro exI [of _ ?b]) simp
  next
    case False
    have t: "t \<in> fst ` set es"
      using False Cons.prems(6) by auto
    have g1: "map_of (graphs ?h1 g) t = None"
      using False Cons.prems(7) by (simp add: entry_graphs update_conv')
    have m: "map_of (e # es) t = map_of es t"
      using False by (cases e) simp
    obtain b where b: "fresh ?h1 \<le> b" "b + 8 \<le> fresh ?h'"
      "map_of (graphs ?h' g) t = Some (b + 7)"
      "nodes ?h' (b + 7) =
        \<lparr> imports_internal = b, imports_external = b + 1, imports_unresolved = b + 2,
          exports = b + 3, node_imported = map_of es t, duplicates = b + 4, scripts = b + 5,
          traceRefs = b + 6 \<rparr>"
      "detailmaps ?h' b = []" "exportmaps ?h' (b + 3) = []"
      "\<forall>a\<in>{b + 1, b + 2, b + 4, b + 5, b + 6}. sets ?h' a = []"
      using Cons.IH [OF lt c1 s1 r1 t g1] by blast
    have "fresh h \<le> b"
      using b(1) entry_fresh [of h f g e] by simp
    then show ?thesis
      unfolding updateImportMap_Cons m using b(2-7)
      by (intro exI [of _ b]) simp
  qed
qed

lemma updateImportMap_synthesized:
  assumes "f < fresh h" "imports_internal (nodes h f) < fresh h"
    and "closed h N M S" "S \<subseteq> {a. a < fresh h}"
    and "\<forall>d\<in>involved h f g im. rooted d N M S"
    and "t \<in> fst ` set im" "map_of (graphs h g) t = None"
  shows "\<exists>n. map_of (graphs (updateImportMap f im g h) g) t = Some n \<and>
      synthesized h (updateImportMap f im g h) n (map_of im t)"
proof -
  obtain b where b: "fresh h \<le> b" "b + 8 \<le> fresh (updateImportMap f im g h)"
      "map_of (graphs (updateImportMap f im g h) g) t = Some (b + 7)"
      "nodes (updateImportMap f im g h) (b + 7) =
        \<lparr> imports_internal = b, imports_external = b + 1, imports_unresolved = b + 2,
          exports = b + 3, node_imported = map_of im t, duplicates = b + 4, scripts = b + 5,
          traceRefs = b + 6 \<rparr>"
      "detailmaps (updateImportMap f im g h) b = []"
      "exportmaps (updateImportMap f im g h) (b + 3) = []"
      "\<forall>a\<in>{b + 1, b + 2, b + 4, b + 5, b + 6}. sets (updateImportMap f im g h) a = []"
    using updateImportMap_created [OF assms] by blast
  have "synthesized h (updateImportMap f im g h) (b + 7) (map_of im t)"
    unfolding synthesized_def b(4) using b(1,2,5,6,7) by simp
  then show ?thesis
    using b(3) by blast
qed

lemma updateImportMap_imported_set:
  assumes "t \<in> fst ` set im" "map_of (graphs h g) t = Some n" "n < fresh h"
  shows "node_imported (nodes (updateImportMap f im g h) n) \<noteq> None"
  using assms
proof (induction im arbitrary: h)
  case Nil
  then show ?case by simp
next
  case (Cons e es)
  let ?h1 = "updateImportMap_entry f g e h"
  have n1: "n < fresh ?h1"
    using Cons.prems(3) entry_fresh [of h f g e] by simp
  have g1: "map_of (graphs ?h1 g) t = Some n"
    using Cons.prems(2) by (auto simp add: entry_graphs update_conv' target_node_def)
  show ?case
  proof (cases "fst e = t")
    case True
    have "node_imported (nodes ?h1 n) \<noteq> None"
      using True Cons.prems(2) by (simp add: entry_imported target_node_def split: option.splits)
    then obtain d where "node_imported (nodes ?h1 n) = Some d"
      by blast
    then show ?thesis
      using updateImportMap_nodes_kept [OF n1, of d f es g] by (simp add: updateImportMap_Cons)
  next
    case False
    then have "t \<in> fst ` set es"
      using Cons.prems(1) by auto
    then show ?thesis
      using Cons.IH [OF _ g1 n1] by (simp add: updateImportMap_Cons)
  qed
qed

lemma updateImportMap_created_distinct:
  assumes "t1 \<in> fst ` set im" "t2 \<in> fst ` set im" "t1 \<noteq> t2"
    and "map_of (graphs h g) t1 = None" "map_of (graphs h g) t2 = None"
  shows "map_of (graphs (updateImportMap f im g h) g) t1 \<noteq>
         map_of (graphs (updateImportMap f im g h) g) t2"
  using assms
proof (induction im arbitrary: h)
  case Nil
  then show ?case by simp
next
  case (Cons e es)
  let ?h1 = "updateImportMap_entry f g e h"
  have split: "map_of (graphs (updateImportMap f es g ?h1) g) u \<noteq>
      map_of (graphs (updateImportMap f es g ?h1) g) v"
    if "fst e = u" "v \<noteq> u" "v \<in> fst ` set (e # es)" "map_of (graphs h g) u = None"
      "map_of (graphs h g) v = None" for u v
  proof -
    have "map_of (graphs ?h1 g) u = Some (fresh h + 7)"
      using that(1,4) entry_created(1) [of h g e f] by simp
    then have 1: "map_of (graphs (updateImportMap f es g ?h1) g) u = Some (fresh h + 7)"
      by (rule updateImportMap_graph_retained)
    have "v \<in> fst ` set es" "map_of (graphs ?h1 g) v = None"
      using that by (auto simp: entry_graphs update_conv')
    then obtain n where "n \<ge> fresh ?h1" "map_of (graphs (updateImportMap f es g ?h1) g) v = Some n"
      using updateImportMap_graph_created by blast
    moreover have "fresh ?h1 = fresh h + 8"
      using that(1,4) entry_created(2) [of h g e f] by simp
    ultimately show ?thesis
      using 1 by simp
  qed
  show ?case
  proof (cases "fst e = t1 \<or> fst e = t2")
    case True
    then show ?thesis
      using split [of t1 t2] split [of t2 t1] Cons.prems
      by (auto simp: updateImportMap_Cons simp del: set_simps)
  next
    case False
    then have "t1 \<in> fst ` set es" "t2 \<in> fst ` set es"
      "map_of (graphs ?h1 g) t1 = None" "map_of (graphs ?h1 g) t2 = None"
      using Cons.prems by (auto simp: entry_graphs update_conv')
    then show ?thesis
      using Cons.IH [of ?h1] Cons.prems(3) by (simp add: updateImportMap_Cons)
  qed
qed

lemma updateImportMap_graph_allocated:
  assumes "k \<in> fst ` set im" "map_of (graphs h g) k = None"
  shows "\<exists>n. fresh h \<le> n \<and> n < fresh (updateImportMap f im g h) \<and>
      map_of (graphs (updateImportMap f im g h) g) k = Some n"
  using assms
proof (induction im arbitrary: h)
  case Nil
  then show ?case by simp
next
  case (Cons e es)
  let ?h1 = "updateImportMap_entry f g e h"
  show ?case
  proof (cases "fst e = k")
    case True
    have "map_of (graphs ?h1 g) k = Some (fresh h + 7)" "fresh ?h1 = fresh h + 8"
      using True Cons.prems(2) entry_created(1,2) [of h g e f] by simp_all
    then have "map_of (graphs (updateImportMap f es g ?h1) g) k = Some (fresh h + 7)"
      "fresh h + 7 < fresh (updateImportMap f es g ?h1)"
      using updateImportMap_graph_retained [of ?h1 g k "fresh h + 7" f es]
        updateImportMap_fresh [of ?h1 f es g] by simp_all
    then show ?thesis
      by (auto simp: updateImportMap_Cons)
  next
    case False
    have k: "k \<in> fst ` set es"
      using False Cons.prems(1) by auto
    have "map_of (graphs ?h1 g) k = None"
      using False Cons.prems(2) by (simp add: entry_graphs update_conv')
    from Cons.IH [OF k this] obtain n where
      "fresh ?h1 \<le> n" "n < fresh (updateImportMap f es g ?h1)"
      "map_of (graphs (updateImportMap f es g ?h1) g) k = Some n"
      by blast
    then show ?thesis
      using entry_fresh [of h f g e] by (auto simp: updateImportMap_Cons intro: order_trans)
  qed
qed

lemma one_import_facts:
  "fresh one_import = 16"
  "imports_internal (nodes one_import 8) = 1"
  "closed one_import {11, 14} {10, 12, 13, 15} {9}"
  "involved one_import 8 0 [(''c.ts'', \<lparr> refs = 9, imported = 10, importedAs = 11,
      importedNs = 12, reExported = 13, reExportedAs = 14, reExportedNs = 15 \<rparr>)] =
    {\<lparr> refs = 9, imported = 10, importedAs = 11, importedNs = 12, reExported = 13,
       reExportedAs = 14, reExportedNs = 15 \<rparr>}"
  "rooted \<lparr> refs = 9, imported = 10, importedAs = 11, importedNs = 12, reExported = 13,
       reExportedAs = 14, reExportedNs = 15 \<rparr> {11, 14} {10, 12, 13, 15} {9}"
  "map_of (graphs one_import 0) ''c.ts'' = None"
  by (simp_all add: one_import_def createImports_def createFileNode_def new_detailmap_def
      new_set_def new_exportmap_def new_node_def new_idmap_def new_nsmap_def new_graph_def
      empty_heap_def closed_def involved_def rooted_def)

section \<open>Claims about the dependency graph\<close>

text \<open>
  Claim C2, as the code has it.  On a graph that has no node for \<^verbatim>\<open>a.ts\<close>,
  \<^verbatim>\<open>getOrCreateFileNode\<close> does not register the node it creates, and a second call
  returns another node.
\<close>

theorem getOrCreateFileNode_counterexample:
  "map_of (graphs (snd (getOrCreateFileNode 0 ''a.ts'' (snd (new_graph empty_heap)))) 0) ''a.ts''
     = None
   \<and> fst (getOrCreateFileNode 0 ''a.ts''
           (snd (getOrCreateFileNode 0 ''a.ts'' (snd (new_graph empty_heap)))))
     \<noteq> fst (getOrCreateFileNode 0 ''a.ts'' (snd (new_graph empty_heap)))"
  by (simp add: getOrCreateFileNode_def createFileNode_fst createFileNode_frame new_graph_def
      empty_heap_def)

text \<open>
  Claim C2, amended.  For a path that the graph has a node for, \<^verbatim>\<open>getOrCreateFileNode\<close>
  returns that node and changes nothing, so that repeated calls return the same node.
  For a path that the graph has no node for, it returns a node that was not allocated
  before, with \<^verbatim>\<open>imported\<close> undefined and empty maps and sets; the graph is not changed
  (the node is not registered: \<^verbatim>\<open>updateImportMap\<close> registers it with \<^verbatim>\<open>graph.set\<close>), no
  object that existed before is changed, and the next call for the same path creates
  another node.
\<close>

theorem getOrCreateFileNode_existing_or_fresh:
  "(map_of (graphs h g) p = Some n \<longrightarrow> getOrCreateFileNode g p h = (n, h))
   \<and> (map_of (graphs h g) p = None \<longrightarrow>
        fresh h \<le> fst (getOrCreateFileNode g p h)
        \<and> fst (getOrCreateFileNode g p h) < fresh (snd (getOrCreateFileNode g p h))
        \<and> graphs (snd (getOrCreateFileNode g p h)) = graphs h
        \<and> idmaps (snd (getOrCreateFileNode g p h)) = idmaps h
        \<and> nsmaps (snd (getOrCreateFileNode g p h)) = nsmaps h
        \<and> (\<forall>a<fresh h.
              nodes (snd (getOrCreateFileNode g p h)) a = nodes h a
              \<and> sets (snd (getOrCreateFileNode g p h)) a = sets h a
              \<and> detailmaps (snd (getOrCreateFileNode g p h)) a = detailmaps h a
              \<and> exportmaps (snd (getOrCreateFileNode g p h)) a = exportmaps h a)
        \<and> node_imported (nodes (snd (getOrCreateFileNode g p h)) (fst (getOrCreateFileNode g p h)))
            = None
        \<and> detailmaps (snd (getOrCreateFileNode g p h))
            (imports_internal
              (nodes (snd (getOrCreateFileNode g p h)) (fst (getOrCreateFileNode g p h)))) = []
        \<and> exportmaps (snd (getOrCreateFileNode g p h))
            (exports (nodes (snd (getOrCreateFileNode g p h)) (fst (getOrCreateFileNode g p h)))) = []
        \<and> (\<forall>field\<in>{imports_external, imports_unresolved, duplicates, scripts, traceRefs}.
              sets (snd (getOrCreateFileNode g p h))
                (field (nodes (snd (getOrCreateFileNode g p h)) (fst (getOrCreateFileNode g p h))))
              = [])
        \<and> fst (getOrCreateFileNode g p (snd (getOrCreateFileNode g p h)))
            \<noteq> fst (getOrCreateFileNode g p h))"
  by (simp add: getOrCreateFileNode_def createFileNode_def new_detailmap_def new_set_def
      new_exportmap_def new_node_def)

theorem getOrCreateFileNode_existing_or_fresh_witness:
  "getOrCreateFileNode 0 ''a.ts''
      ((snd (new_graph empty_heap))\<lparr>graphs := (\<lambda>g. [(''a.ts'', 5)])\<rparr>) =
     (5, (snd (new_graph empty_heap))\<lparr>graphs := (\<lambda>g. [(''a.ts'', 5)])\<rparr>)
   \<and> graphs (snd (getOrCreateFileNode 0 ''a.ts'' (snd (new_graph empty_heap)))) =
       graphs (snd (new_graph empty_heap))"
proof -
  have h: "map_of (graphs ((snd (new_graph empty_heap))\<lparr>graphs := (\<lambda>g. [(''a.ts'', 5)])\<rparr>) 0)
      ''a.ts'' = Some 5"
    "map_of (graphs (snd (new_graph empty_heap)) 0) ''a.ts'' = None"
    by (simp_all add: new_graph_def empty_heap_def)
  show ?thesis
    using getOrCreateFileNode_existing_or_fresh
        [where h = "(snd (new_graph empty_heap))\<lparr>graphs := (\<lambda>g. [(''a.ts'', 5)])\<rparr>"
          and g = 0 and p = "''a.ts''" and n = 5]
      getOrCreateFileNode_existing_or_fresh
        [where h = "snd (new_graph empty_heap)" and g = 0 and p = "''a.ts''"]
      h
    by blast
qed

text \<open>
  Claim C6.  After \<^verbatim>\<open>updateImportMap(file, importMap, graph)\<close> the graph has a node for
  every key of \<^verbatim>\<open>importMap\<close>.  For a key that had a node it is that node, and an allocated
  one has its \<^verbatim>\<open>imported\<close> set after the call.  For a key that had none it is a node
  allocated during the call, and two such keys have two nodes.  In a store where the
  source node and its \<^verbatim>\<open>imports.internal\<close> are allocated and the import details that the
  call works on are rooted in a closed region of allocated sets, the node of a key that had
  none is as \<^verbatim>\<open>createFileNode\<close> makes it, new and empty, except that its \<^verbatim>\<open>imported\<close> is the
  import details that \<^verbatim>\<open>importMap\<close> has for the key.
\<close>

theorem target_registration:
  "(\<forall>t\<in>fst ` set importMap.
      \<exists>n. map_of (graphs (updateImportMap f importMap g h) g) t = Some n
        \<and> (map_of (graphs h g) t = Some n
           \<or> map_of (graphs h g) t = None \<and> fresh h \<le> n
             \<and> n < fresh (updateImportMap f importMap g h)))
   \<and> (\<forall>t\<in>fst ` set importMap. \<forall>n<fresh h. map_of (graphs h g) t = Some n \<longrightarrow>
        node_imported (nodes (updateImportMap f importMap g h) n) \<noteq> None)
   \<and> (\<forall>t\<in>fst ` set importMap. \<forall>u\<in>fst ` set importMap.
        t \<noteq> u \<and> map_of (graphs h g) t = None \<and> map_of (graphs h g) u = None \<longrightarrow>
        map_of (graphs (updateImportMap f importMap g h) g) t \<noteq>
        map_of (graphs (updateImportMap f importMap g h) g) u)
   \<and> (f < fresh h \<and> imports_internal (nodes h f) < fresh h \<and> closed h N M S
        \<and> S \<subseteq> {a. a < fresh h} \<and> (\<forall>d\<in>involved h f g importMap. rooted d N M S) \<longrightarrow>
      (\<forall>t\<in>fst ` set importMap. map_of (graphs h g) t = None \<longrightarrow>
        (\<exists>n. map_of (graphs (updateImportMap f importMap g h) g) t = Some n
           \<and> synthesized h (updateImportMap f importMap g h) n (map_of importMap t))))"
proof (intro conjI ballI allI impI)
  fix t
  assume t: "t \<in> fst ` set importMap"
  show "\<exists>n. map_of (graphs (updateImportMap f importMap g h) g) t = Some n
       \<and> (map_of (graphs h g) t = Some n
           \<or> map_of (graphs h g) t = None \<and> fresh h \<le> n
             \<and> n < fresh (updateImportMap f importMap g h))"
  proof (cases "map_of (graphs h g) t")
    case None
    then show ?thesis
      using updateImportMap_graph_allocated [OF t, of h g f] by auto
  next
    case (Some n)
    then show ?thesis
      using updateImportMap_graph_retained [of h g t n f importMap] by auto
  qed
next
  fix t n
  assume "t \<in> fst ` set importMap" "n < fresh h" "map_of (graphs h g) t = Some n"
  then show "node_imported (nodes (updateImportMap f importMap g h) n) \<noteq> None"
    by (intro updateImportMap_imported_set)
next
  fix t u
  assume "t \<in> fst ` set importMap" "u \<in> fst ` set importMap"
    "t \<noteq> u \<and> map_of (graphs h g) t = None \<and> map_of (graphs h g) u = None"
  then show "map_of (graphs (updateImportMap f importMap g h) g) t \<noteq>
        map_of (graphs (updateImportMap f importMap g h) g) u"
    by (intro updateImportMap_created_distinct) simp_all
next
  fix t
  assume w: "f < fresh h \<and> imports_internal (nodes h f) < fresh h \<and> closed h N M S
        \<and> S \<subseteq> {a. a < fresh h} \<and> (\<forall>d\<in>involved h f g importMap. rooted d N M S)"
    and t: "t \<in> fst ` set importMap" "map_of (graphs h g) t = None"
  show "\<exists>n. map_of (graphs (updateImportMap f importMap g h) g) t = Some n
           \<and> synthesized h (updateImportMap f importMap g h) n (map_of importMap t)"
    using w t by (intro updateImportMap_synthesized [where N = N and M = M and S = S]) simp_all
qed

theorem target_registration_witness:
  "\<exists>n. map_of (graphs (updateImportMap 8 [(''c.ts'', \<lparr> refs = 9, imported = 10,
          importedAs = 11, importedNs = 12, reExported = 13, reExportedAs = 14,
          reExportedNs = 15 \<rparr>)] 0 one_import) 0) ''c.ts'' = Some n
     \<and> synthesized one_import (updateImportMap 8 [(''c.ts'', \<lparr> refs = 9, imported = 10,
          importedAs = 11, importedNs = 12, reExported = 13, reExportedAs = 14,
          reExportedNs = 15 \<rparr>)] 0 one_import) n
        (Some \<lparr> refs = 9, imported = 10, importedAs = 11, importedNs = 12, reExported = 13,
          reExportedAs = 14, reExportedNs = 15 \<rparr>)"
  using target_registration [where f = 8 and g = 0 and h = one_import and N = "{11, 14}"
      and M = "{10, 12, 13, 15}" and S = "{9}"
      and importMap = "[(''c.ts'', \<lparr> refs = 9, imported = 10, importedAs = 11,
        importedNs = 12, reExported = 13, reExportedAs = 14, reExportedNs = 15 \<rparr>)]"]
  by (simp add: one_import_facts)

text \<open>
  Claim C9, as the code has it.  Files \<open>A\<close> and \<open>B\<close> import \<open>x\<close> from \<open>C\<close>, and \<open>A\<close> has
  been analysed.  The call of \<^verbatim>\<open>updateImportMap\<close> for \<open>B\<close>, whose import map has the one
  key \<open>C\<close>, changes the content of the entry for \<open>C\<close> in \<^verbatim>\<open>imports.internal\<close> of the node
  of \<open>A\<close>, which is neither the source nor a target of the call and whose path is not a
  key: that entry is the object the node of \<open>C\<close> holds as \<^verbatim>\<open>imported\<close>.
\<close>

theorem updateImportMap_frame_counterexample:
  "internal_content
      (updateImportMap (node_b (three_files ''A'' ''B'' ''C'' ''x''))
         [(''C'', details_b (three_files ''A'' ''B'' ''C'' ''x''))]
         (sc_graph (three_files ''A'' ''B'' ''C'' ''x''))
         (analyse_all ''A'' ''B'' ''C'' ''x'' [File_a]))
      (node_a (three_files ''A'' ''B'' ''C'' ''x'')) ''C''
   \<noteq> internal_content (analyse_all ''A'' ''B'' ''C'' ''x'' [File_a])
      (node_a (three_files ''A'' ''B'' ''C'' ''x'')) ''C''
   \<and> node_a (three_files ''A'' ''B'' ''C'' ''x'') \<noteq> node_b (three_files ''A'' ''B'' ''C'' ''x'')
   \<and> map_of (graphs (analyse_all ''A'' ''B'' ''C'' ''x'' [File_a])
        (sc_graph (three_files ''A'' ''B'' ''C'' ''x''))) ''C''
      \<noteq> Some (node_a (three_files ''A'' ''B'' ''C'' ''x''))"
proof -
  have d: "''A'' \<noteq> ''B''" "''A'' \<noteq> ''C''" "''B'' \<noteq> ''C''"
    by simp_all
  have e: "updateImportMap (node_b (three_files ''A'' ''B'' ''C'' ''x''))
         [(''C'', details_b (three_files ''A'' ''B'' ''C'' ''x''))]
         (sc_graph (three_files ''A'' ''B'' ''C'' ''x''))
         (analyse_all ''A'' ''B'' ''C'' ''x'' [File_a]) =
       analyse_all ''A'' ''B'' ''C'' ''x'' [File_a, File_b]"
    by (simp add: analyse_all_def analyse_def Let_def)
  obtain D1 where D1: "internal_content (analyse_all ''A'' ''B'' ''C'' ''x'' [File_a, File_b])
      (node_a (three_files ''A'' ''B'' ''C'' ''x'')) ''C'' = Some D1"
      "c_imported D1 ''x'' = Some {''A'', ''B''}"
    using internal_content_a_ab(1) [OF d] by blast
  obtain D2 where D2: "internal_content (analyse_all ''A'' ''B'' ''C'' ''x'' [File_a])
      (node_a (three_files ''A'' ''B'' ''C'' ''x'')) ''C'' = Some D2"
      "c_imported D2 ''x'' = Some {''A''}"
    using internal_content_a_ab(3) [OF d] by blast
  have "D1 \<noteq> D2"
    using D1(2) D2(2) by auto
  moreover have "map_of (graphs (analyse_all ''A'' ''B'' ''C'' ''x'' [File_a])
        (sc_graph (three_files ''A'' ''B'' ''C'' ''x''))) ''C'' = Some 24"
    using observe_fields(1) [OF observe_a [OF d, of "''x''"]] by (simp add: scenario_addresses)
  ultimately show ?thesis
    unfolding e using D1(1) D2(1) by (simp add: scenario_addresses)
qed

text \<open>
  Claim C9, amended.  Let \<^verbatim>\<open>updateImportMap(file, importMap, graph)\<close> run on an allocated
  node whose map \<^verbatim>\<open>imports.internal\<close> is allocated.  Of the nodes, maps and sets that
  existed before the call:
  \<^item> every node keeps its fields \<^verbatim>\<open>imports.internal\<close>, \<^verbatim>\<open>imports.external\<close>,
    \<^verbatim>\<open>imports.unresolved\<close>, \<^verbatim>\<open>exports\<close>, \<^verbatim>\<open>duplicates\<close>, \<^verbatim>\<open>scripts\<close> and \<^verbatim>\<open>traceRefs\<close>; a node
    that the graph does not hold under a key of \<^verbatim>\<open>importMap\<close> keeps \<^verbatim>\<open>imported\<close> too, and so
    does every node whose \<^verbatim>\<open>imported\<close> was set;
  \<^item> every map of exports is unchanged, and so is every map \<^verbatim>\<open>imports.internal\<close> other
    than the one of the source node; that one keeps its entries and gains, for each key
    of \<^verbatim>\<open>importMap\<close> that it lacks, the import details of \<^verbatim>\<open>importMap\<close>;
  \<^item> the graph keeps the entry of every path that is not a key of \<^verbatim>\<open>importMap\<close>, and
    other graphs are unchanged;
  \<^item> no set and no map of import details is overwritten: each keeps its elements and
    entries, in their order, and may gain new ones;
  \<^item> the sets and maps of import details that change are among those that can be reached
    from the import details the call works on, which are the values of \<^verbatim>\<open>importMap\<close> and,
    for its keys, the entries of \<^verbatim>\<open>imports.internal\<close> of the source node and the \<^verbatim>\<open>imported\<close>
    of the registered nodes: whenever these are rooted in a closed region, nothing changes
    outside of the region, and the region stays closed.

  An entry of \<^verbatim>\<open>imports.internal\<close> of another node changes with the call only as far as it
  shares sets or maps with these import details.
\<close>

theorem updateImportMap_frame:
  assumes "f < fresh h" "imports_internal (nodes h f) < fresh h"
  shows "(\<forall>n<fresh h. node_frame (nodes (updateImportMap f importMap g h) n) (nodes h n))
    \<and> (\<forall>n<fresh h. (\<forall>k\<in>fst ` set importMap. map_of (graphs h g) k \<noteq> Some n) \<longrightarrow>
          nodes (updateImportMap f importMap g h) n = nodes h n)
    \<and> (\<forall>n<fresh h. node_imported (nodes h n) \<noteq> None \<longrightarrow>
          nodes (updateImportMap f importMap g h) n = nodes h n)
    \<and> (\<forall>a<fresh h. exportmaps (updateImportMap f importMap g h) a = exportmaps h a)
    \<and> (\<forall>m<fresh h. m \<noteq> imports_internal (nodes h f) \<longrightarrow>
          detailmaps (updateImportMap f importMap g h) m = detailmaps h m)
    \<and> (\<forall>k. map_of (detailmaps (updateImportMap f importMap g h) (imports_internal (nodes h f))) k =
            (case map_of (detailmaps h (imports_internal (nodes h f))) k of
               Some d \<Rightarrow> Some d
             | None \<Rightarrow> map_of importMap k))
    \<and> (\<forall>k. k \<notin> fst ` set importMap \<longrightarrow>
            map_of (graphs (updateImportMap f importMap g h) g) k = map_of (graphs h g) k)
    \<and> (\<forall>g'. g' \<noteq> g \<longrightarrow> graphs (updateImportMap f importMap g h) g' = graphs h g')
    \<and> extends h (updateImportMap f importMap g h)
    \<and> (closed h N M S \<and> (\<forall>d\<in>involved h f g importMap. rooted d N M S) \<longrightarrow>
          closed (updateImportMap f importMap g h) N M S
          \<and> (\<forall>a<fresh h. a \<notin> S \<longrightarrow> sets (updateImportMap f importMap g h) a = sets h a)
          \<and> (\<forall>a. a \<notin> M \<longrightarrow> idmaps (updateImportMap f importMap g h) a = idmaps h a)
          \<and> (\<forall>a. a \<notin> N \<longrightarrow> nsmaps (updateImportMap f importMap g h) a = nsmaps h a))"
proof -
  have kept: "\<forall>n<fresh h. node_imported (nodes h n) \<noteq> None \<longrightarrow>
          nodes (updateImportMap f importMap g h) n = nodes h n"
    using updateImportMap_nodes_kept [of _ h _ f importMap g] by auto
  have region: "closed h N M S \<and> (\<forall>d\<in>involved h f g importMap. rooted d N M S) \<longrightarrow>
          closed (updateImportMap f importMap g h) N M S
          \<and> (\<forall>a<fresh h. a \<notin> S \<longrightarrow> sets (updateImportMap f importMap g h) a = sets h a)
          \<and> (\<forall>a. a \<notin> M \<longrightarrow> idmaps (updateImportMap f importMap g h) a = idmaps h a)
          \<and> (\<forall>a. a \<notin> N \<longrightarrow> nsmaps (updateImportMap f importMap g h) a = nsmaps h a)"
    using updateImportMap_region [OF assms, of N M S g importMap] by blast
  show ?thesis
    using assms kept region
    by (simp add: updateImportMap_nodes updateImportMap_nodes_other updateImportMap_exportmaps
      updateImportMap_detailmaps_other updateImportMap_detailmaps_internal
      updateImportMap_graph_frame updateImportMap_graph_other extends_updateImportMap)
qed

theorem updateImportMap_frame_witness:
  "node_frame
     (nodes (updateImportMap 8 [(''c.ts'', \<lparr> refs = 9, imported = 10, importedAs = 11,
          importedNs = 12, reExported = 13, reExportedAs = 14, reExportedNs = 15 \<rparr>)] 0
        one_import) 8)
     (nodes one_import 8)
   \<and> map_of (graphs (updateImportMap 8 [(''c.ts'', \<lparr> refs = 9, imported = 10, importedAs = 11,
          importedNs = 12, reExported = 13, reExportedAs = 14, reExportedNs = 15 \<rparr>)] 0
        one_import) 0) ''b.ts'' = map_of (graphs one_import 0) ''b.ts''
   \<and> sets (updateImportMap 8 [(''c.ts'', \<lparr> refs = 9, imported = 10, importedAs = 11,
          importedNs = 12, reExported = 13, reExportedAs = 14, reExportedNs = 15 \<rparr>)] 0
        one_import) 2 = sets one_import 2
   \<and> closed (updateImportMap 8 [(''c.ts'', \<lparr> refs = 9, imported = 10, importedAs = 11,
          importedNs = 12, reExported = 13, reExportedAs = 14, reExportedNs = 15 \<rparr>)] 0
        one_import) {11, 14} {10, 12, 13, 15} {9}"
proof -
  have h: "8 < fresh one_import" "imports_internal (nodes one_import 8) < fresh one_import"
    by (simp_all add: one_import_facts)
  show ?thesis
    using updateImportMap_frame [OF h, where g = 0 and N = "{11, 14}"
      and M = "{10, 12, 13, 15}" and S = "{9}" and importMap = "[(''c.ts'',
      \<lparr> refs = 9, imported = 10, importedAs = 11, importedNs = 12, reExported = 13,
        reExportedAs = 14, reExportedNs = 15 \<rparr>)]"]
    by (simp add: one_import_facts node_frame_def)
qed

text \<open>
  Claim C1, as the code has it.  With files \<open>A\<close> and \<open>B\<close> that import \<open>x\<close> from \<open>C\<close>, the
  content of the entry for \<open>C\<close> in \<^verbatim>\<open>imports.internal\<close> of the node of \<open>A\<close> after the order
  \<open>A, B, C\<close> is not its content after the order \<open>B, A, C\<close>.
\<close>

theorem order_independence_counterexample:
  "internal_content (analyse_all ''A'' ''B'' ''C'' ''x'' [File_a, File_b, File_c])
      (node_a (three_files ''A'' ''B'' ''C'' ''x'')) ''C''
   \<noteq> internal_content (analyse_all ''A'' ''B'' ''C'' ''x'' [File_b, File_a, File_c])
      (node_a (three_files ''A'' ''B'' ''C'' ''x'')) ''C''"
proof -
  have d: "''A'' \<noteq> ''B''" "''A'' \<noteq> ''C''" "''B'' \<noteq> ''C''"
    by simp_all
  obtain D1 where D1: "internal_content (analyse_all ''A'' ''B'' ''C'' ''x'' [File_a, File_b])
      (node_a (three_files ''A'' ''B'' ''C'' ''x'')) ''C'' = Some D1"
      "c_imported D1 ''x'' = Some {''A'', ''B''}"
    using internal_content_a_ab(1) [OF d] by blast
  obtain D2 where D2: "internal_content (analyse_all ''A'' ''B'' ''C'' ''x'' [File_b, File_a])
      (node_a (three_files ''A'' ''B'' ''C'' ''x'')) ''C'' = Some D2"
      "c_imported D2 ''x'' = Some {''A''}"
    using internal_content_a_ab(2) [OF d] by blast
  have "D1 \<noteq> D2"
    using D1(2) D2(2) by auto
  then show ?thesis
    using D1(1) D2(1)
      analyse_all_file_c(1) [of "''A''" "''B''" "''C''" "''x''" "[File_a, File_b]"]
      analyse_all_file_c(1) [of "''A''" "''B''" "''C''" "''x''" "[File_b, File_a]"]
    by simp
qed

text \<open>
  Claim C1, amended.  Let \<open>a\<close>, \<open>b\<close> and \<open>c\<close> be three files, \<open>a\<close> and \<open>b\<close> both importing
  \<open>x\<close> from \<open>c\<close>, with nodes and import details made by the factories of the module.  In
  every order of the three files, all six, the calls of \<^verbatim>\<open>updateImportMap\<close> give
  the same entries of the graph and the same \<^verbatim>\<open>imported\<close> of every node: none for
  \<open>a\<close> and \<open>b\<close>, and for \<open>c\<close> the content in which \<open>x\<close> is imported by exactly \<open>a\<close> and \<open>b\<close>.
  In \<^verbatim>\<open>imports.internal\<close> the node of \<open>c\<close> has no entry, and the nodes of \<open>a\<close> and \<open>b\<close> have
  an entry for \<open>c\<close> only, in which the importers of \<open>x\<close> include the file itself.  The
  content of these two entries depends on which of \<open>a\<close> and \<open>b\<close> is analysed first, and on
  nothing else: the entry of the file analysed first is the object that becomes the
  \<^verbatim>\<open>imported\<close> of \<open>c\<close>, and two orders that have \<open>a\<close> and \<open>b\<close> in the same order give the
  same store.
\<close>

theorem order_independence_of_reverse_index:
  assumes "a \<noteq> b" "a \<noteq> c" "b \<noteq> c" "o1 \<in> orders" "o2 \<in> orders"
  shows "graphs (analyse_all a b c x o1) (sc_graph (three_files a b c x)) =
           graphs (analyse_all a b c x o2) (sc_graph (three_files a b c x))
    \<and> graphs (analyse_all a b c x o1) (sc_graph (three_files a b c x)) =
           [(a, node_a (three_files a b c x)), (b, node_b (three_files a b c x)),
            (c, node_c (three_files a b c x))]
    \<and> imported_content (analyse_all a b c x o1) (node_c (three_files a b c x)) =
        imported_content (analyse_all a b c x o2) (node_c (three_files a b c x))
    \<and> imported_content (analyse_all a b c x o1) (node_c (three_files a b c x)) =
        Some (both_import a b x)
    \<and> imported_content (analyse_all a b c x o1) (node_a (three_files a b c x)) = None
    \<and> imported_content (analyse_all a b c x o1) (node_b (three_files a b c x)) = None
    \<and> (\<exists>D s. internal_content (analyse_all a b c x o1) (node_a (three_files a b c x)) c = Some D
           \<and> c_imported D x = Some s \<and> a \<in> s)
    \<and> (\<exists>D s. internal_content (analyse_all a b c x o1) (node_b (three_files a b c x)) c = Some D
           \<and> c_imported D x = Some s \<and> b \<in> s)
    \<and> (\<forall>k. k \<noteq> c \<longrightarrow>
          internal_content (analyse_all a b c x o1) (node_a (three_files a b c x)) k = None
          \<and> internal_content (analyse_all a b c x o1) (node_b (three_files a b c x)) k = None)
    \<and> (\<forall>k. internal_content (analyse_all a b c x o1) (node_c (three_files a b c x)) k = None)
    \<and> (filter (\<lambda>f. f \<noteq> File_c) o1 = filter (\<lambda>f. f \<noteq> File_c) o2 \<longrightarrow>
          analyse_all a b c x o1 = analyse_all a b c x o2)"
proof -
  note o1 = three_files_order [OF assms(1,2,3,4), of x]
  note o2 = three_files_order [OF assms(1,2,3,5), of x]
  have none: "internal_content h n k = None" if "k \<notin> fst ` set (internal_entries h n)"
    for h n k
    using that by (simp add: internal_content_entries map_of_eq_None_iff)
  have ka: "fst ` set (internal_entries (analyse_all a b c x o1) (node_a (three_files a b c x)))
      = {c}"
    using arg_cong [OF o1(7), of set] by simp
  have kb: "fst ` set (internal_entries (analyse_all a b c x o1) (node_b (three_files a b c x)))
      = {c}"
    using arg_cong [OF o1(8), of set] by simp
  have "\<forall>k. k \<noteq> c \<longrightarrow>
          internal_content (analyse_all a b c x o1) (node_a (three_files a b c x)) k = None
          \<and> internal_content (analyse_all a b c x o1) (node_b (three_files a b c x)) k = None"
    using none [of _ "analyse_all a b c x o1"] ka kb by simp
  moreover have "\<forall>k. internal_content (analyse_all a b c x o1) (node_c (three_files a b c x)) k
      = None"
    using none [of _ "analyse_all a b c x o1"] o1(9) by simp
  moreover have "filter (\<lambda>f. f \<noteq> File_c) o1 = filter (\<lambda>f. f \<noteq> File_c) o2 \<longrightarrow>
          analyse_all a b c x o1 = analyse_all a b c x o2"
    using analyse_all_without_c [of a b c x o1] analyse_all_without_c [of a b c x o2] by simp
  ultimately show ?thesis
    using o1(1-6) o2(1,2) by simp
qed

theorem order_independence_of_reverse_index_witness:
  "imported_content (analyse_all ''A'' ''B'' ''C'' ''x'' [File_a, File_b, File_c])
       (node_c (three_files ''A'' ''B'' ''C'' ''x'')) =
     imported_content (analyse_all ''A'' ''B'' ''C'' ''x'' [File_c, File_b, File_a])
       (node_c (three_files ''A'' ''B'' ''C'' ''x''))
   \<and> imported_content (analyse_all ''A'' ''B'' ''C'' ''x'' [File_a, File_b, File_c])
       (node_c (three_files ''A'' ''B'' ''C'' ''x'')) = Some (both_import ''A'' ''B'' ''x'')"
proof -
  have h: "''A'' \<noteq> ''B''" "''A'' \<noteq> ''C''" "''B'' \<noteq> ''C''"
    "[File_a, File_b, File_c] \<in> orders" "[File_c, File_b, File_a] \<in> orders"
    by (auto simp: orders_def)
  show ?thesis
    using order_independence_of_reverse_index [OF h, of "''x''"] by blast
qed




end
